theory Spec2Isabelle
  imports Main "HOL-Library.AList"
begin

section \<open>Command parser (src/structures/TemplateParser.js)\<close>

text \<open>
  Strings are lists of code units; the model covers the code units below 256. On that
  range the class \<^verbatim>\<open>\s\<close> of a JavaScript regular expression and the characters removed by
  \<^verbatim>\<open>String.prototype.trim\<close> are the same seven characters, and \<^verbatim>\<open>\w\<close> is
  \<^verbatim>\<open>[A-Za-z0-9_]\<close>.
\<close>

definition is_word_char :: "char \<Rightarrow> bool" where
  "is_word_char c =
     (let n = (of_char c :: nat)
      in (48 \<le> n \<and> n \<le> 57) \<or> (65 \<le> n \<and> n \<le> 90) \<or> n = 95 \<or> (97 \<le> n \<and> n \<le> 122))"

definition is_space_char :: "char \<Rightarrow> bool" where
  "is_space_char c =
     (let n = (of_char c :: nat)
      in (9 \<le> n \<and> n \<le> 13) \<or> n = 32 \<or> n = 160)"

definition is_value_char :: "char \<Rightarrow> bool" where
  "is_value_char c = (is_word_char c \<or> is_space_char c)"

text \<open>\<^verbatim>\<open>String.prototype.trim\<close>.\<close>

definition trim :: "string \<Rightarrow> string" where
  "trim s = rev (dropWhile is_space_char (rev (dropWhile is_space_char s)))"

text \<open>
  \<^verbatim>\<open>String.prototype.toLowerCase\<close> on code units below 256: the letters A-Z and the
  Latin-1 capitals 192-222 (without the multiplication sign 215) move up by 32.
\<close>

definition lower_char :: "char \<Rightarrow> char" where
  "lower_char c =
     (let n = (of_char c :: nat)
      in if (65 \<le> n \<and> n \<le> 90) \<or> (192 \<le> n \<and> n \<le> 222 \<and> n \<noteq> 215)
         then char_of (n + 32) else c)"

definition toLowerCase :: "string \<Rightarrow> string" where
  "toLowerCase s = map lower_char s"

text \<open>\<^verbatim>\<open>String.prototype.split\<close> with a one-character separator.\<close>

fun split_on :: "char \<Rightarrow> string \<Rightarrow> string list" where
  "split_on sep [] = [[]]"
| "split_on sep (c # cs) =
     (if c = sep then [] # split_on sep cs
      else (case split_on sep cs of
              [] \<Rightarrow> [[c]]
            | p # ps \<Rightarrow> (c # p) # ps))"

text \<open>
  The values a parsed field can hold. Numbers are kept abstract (type \<open>'n\<close>): they are
  whatever the host's \<^verbatim>\<open>Number(...)\<close> returns, \<^verbatim>\<open>NaN\<close> included, and their
  \<^verbatim>\<open>typeof\<close> is always \<^verbatim>\<open>"number"\<close>.
\<close>

datatype 'n jsval =
    VStr string
  | VNum 'n
  | VBool bool
  | VArr "string list"

text \<open>
  What the parser takes from the JavaScript host: \<^verbatim>\<open>Number(s)\<close>, \<^verbatim>\<open>String(v)\<close> and
  \<^verbatim>\<open>new RegExp(p).test(s)\<close>.
\<close>

record 'n host =
  Number :: "string \<Rightarrow> 'n"
  String_of :: "'n jsval \<Rightarrow> string"
  regex_test :: "string \<Rightarrow> string \<Rightarrow> bool"

record field_def =
  ftype :: string
  required :: bool
  pattern :: "string option"

text \<open>
  A template's \<^verbatim>\<open>fields\<close> object, as the list \<^verbatim>\<open>Object.entries\<close> returns for it.
\<close>

record message_template =
  tfields :: "(string \<times> field_def) list"
  examples :: "string list"

text \<open>
  A parsed message is a property bag: \<^verbatim>\<open>isValid\<close>, \<^verbatim>\<open>errors\<close>, \<^verbatim>\<open>command\<close> and the
  fields of the message all live in one object, and a key of the message can overwrite
  any of them. A property that is absent reads \<^verbatim>\<open>undefined\<close>, here \<open>None\<close>. Keys and
  field names that name a member of \<^verbatim>\<open>Object.prototype\<close> (such as \<^verbatim>\<open>constructor\<close>) are
  outside the model.
\<close>

type_synonym 'n parsed_message = "string \<Rightarrow> 'n jsval option"

text \<open>\<^verbatim>\<open>_convertValueType(value, type)\<close>; an absent type is the empty string.\<close>

definition convertValueType :: "'n host \<Rightarrow> string \<Rightarrow> string \<Rightarrow> 'n jsval" where
  "convertValueType h v ty =
     (if ty = [] then VStr v
      else if ty = ''number'' then VNum (Number h v)
      else if ty = ''boolean'' then VBool (toLowerCase v = ''true'')
      else if ty = ''array'' then VArr (map trim (split_on CHR '','' v))
      else VStr v)"

text \<open>The match of \<^verbatim>\<open>/^!(\w+)/\<close>: the first capture group, if the pattern matches.\<close>

definition commandMatch :: "string \<Rightarrow> string option" where
  "commandMatch m =
     (case m of
        [] \<Rightarrow> None
      | c # rest \<Rightarrow>
          (if c = CHR ''!'' \<and> takeWhile is_word_char rest \<noteq> []
           then Some (takeWhile is_word_char rest) else None))"

text \<open>
  One attempt of \<^verbatim>\<open>/(\w+):([\w\s]+)/\<close> at the start of \<open>s\<close>. Both repetitions are
  greedy. The key is the longest run of word characters; a shorter key is followed by a
  word character and never by the colon, so backtracking finds nothing more. The value
  is the longest run of word and space characters after the colon. The result is the
  matched text and the rest of the input.
\<close>

definition match_at :: "string \<Rightarrow> (string \<times> string) option" where
  "match_at s =
     (let k = takeWhile is_word_char s; r = dropWhile is_word_char s
      in if k = [] then None
         else (case r of
                 [] \<Rightarrow> None
               | c # r' \<Rightarrow>
                   (if c = CHR '':'' \<and> takeWhile is_value_char r' \<noteq> []
                    then Some (k @ c # takeWhile is_value_char r', dropWhile is_value_char r')
                    else None)))"

lemma match_at_shorter:
  "match_at s = Some (m, rest) \<Longrightarrow> length rest < length s"
proof -
  assume a: "match_at s = Some (m, rest)"
  have le: "length (dropWhile P xs) \<le> length xs" for P and xs :: string
    by (simp add: length_dropWhile_le)
  from a obtain c r' where r: "dropWhile is_word_char s = c # r'"
    and rest: "rest = dropWhile is_value_char r'"
    by (auto simp: match_at_def Let_def split: list.splits if_splits)
  have "length rest \<le> length r'" using rest le by simp
  also have "length r' < length (dropWhile is_word_char s)" using r by simp
  also have "\<dots> \<le> length s" by (rule le)
  finally show ?thesis .
qed

text \<open>
  \<^verbatim>\<open>message.match(/(\w+):([\w\s]+)/g) || []\<close>: the matches from left to right, each
  search starting where the previous match ended, or one character further after a
  failed attempt.
\<close>

function match_all :: "string \<Rightarrow> string list" where
  "match_all s =
     (if s = [] then []
      else (case match_at s of
              Some (m, rest) \<Rightarrow> m # match_all rest
            | None \<Rightarrow> match_all (tl s)))"
  by pat_completeness auto
termination
  by (relation "measure length") (auto dest: match_at_shorter)

declare match_all.simps [simp del]

text \<open>
  The body of the loop over the pairs: \<^verbatim>\<open>const [key, value] = pair.split(':')\<close>, a
  missing element being \<^verbatim>\<open>undefined\<close> (falsy, like the empty string).
\<close>

definition assign_pair :: "'n host \<Rightarrow> message_template \<Rightarrow> string \<Rightarrow> 'n parsed_message \<Rightarrow> 'n parsed_message" where
  "assign_pair h t pair result =
     (let parts = split_on CHR '':'' pair;
          key = (case parts of [] \<Rightarrow> [] | k # _ \<Rightarrow> k);
          val = (case parts of k # v # _ \<Rightarrow> v | _ \<Rightarrow> [])
      in if key \<noteq> [] \<and> val \<noteq> []
         then result(trim key \<mapsto>
                convertValueType h (trim val)
                  (case map_of (tfields t) key of None \<Rightarrow> [] | Some d \<Rightarrow> ftype d))
         else result)"

definition dq :: char where
  "dq = CHR 0x22"

text \<open>
  The checks of one template field in \<^verbatim>\<open>validateParsedMessage\<close>; the errors it adds,
  in order. \<^verbatim>\<open>typeof\<close> of a number is \<^verbatim>\<open>"number"\<close> also for \<^verbatim>\<open>NaN\<close>, and an empty
  type or pattern is falsy and checks nothing.
\<close>

definition field_errors :: "'n host \<Rightarrow> 'n parsed_message \<Rightarrow> string \<times> field_def \<Rightarrow> string list" where
  "field_errors h parsed fd =
     (let field = fst fd; d = snd fd; v = parsed field
      in (if required d \<and> v = None
          then [''Required field '' @ [dq] @ field @ [dq] @ '' is missing''] else [])
       @ (case v of
            None \<Rightarrow> []
          | Some x \<Rightarrow>
              (if ftype d = [] then []
               else if ftype d = ''number'' \<and> \<not> (case x of VNum _ \<Rightarrow> True | _ \<Rightarrow> False)
                 then [''Field '' @ [dq] @ field @ [dq] @ '' should be a number'']
               else if ftype d = ''boolean'' \<and> \<not> (case x of VBool _ \<Rightarrow> True | _ \<Rightarrow> False)
                 then [''Field '' @ [dq] @ field @ [dq] @ '' should be a boolean'']
               else if ftype d = ''array'' \<and> \<not> (case x of VArr _ \<Rightarrow> True | _ \<Rightarrow> False)
                 then [''Field '' @ [dq] @ field @ [dq] @ '' should be an array'']
               else []))
       @ (case v of
            None \<Rightarrow> []
          | Some x \<Rightarrow>
              (case pattern d of
                 None \<Rightarrow> []
               | Some p \<Rightarrow>
                   (if p = [] \<or> regex_test h p (String_of h x) then []
                    else [''Field '' @ [dq] @ field @ [dq] @ '' does not match pattern '' @ p]))))"

definition validateParsedMessage :: "'n host \<Rightarrow> 'n parsed_message \<Rightarrow> message_template \<Rightarrow> 'n parsed_message" where
  "validateParsedMessage h parsed t =
     (let errs = concat (map (field_errors h parsed) (tfields t))
      in parsed(''errors'' \<mapsto> VArr errs, ''isValid'' \<mapsto> VBool (errs = [])))"

datatype template_arg = ByName string | ByDef message_template

text \<open>
  \<^verbatim>\<open>parseMessage(message, template)\<close>; \<open>templates\<close> is the parser's map of registered
  templates.
\<close>

definition parseMessage ::
  "'n host \<Rightarrow> (string \<Rightarrow> message_template option) \<Rightarrow> string \<Rightarrow> template_arg \<Rightarrow> 'n parsed_message" where
  "parseMessage h templates message template =
     (case (case template of
              ByName name \<Rightarrow> (case templates name of None \<Rightarrow> Inl name | Some t \<Rightarrow> Inr t)
            | ByDef t \<Rightarrow> Inr t) of
        Inl name \<Rightarrow>
          [''isValid'' \<mapsto> VBool False,
           ''errors'' \<mapsto> VArr [''Template '' @ [dq] @ name @ [dq] @ '' not found'']]
      | Inr t \<Rightarrow>
          (let result0 = [''isValid'' \<mapsto> VBool True, ''errors'' \<mapsto> VArr []];
               result1 = (case commandMatch message of
                            None \<Rightarrow> result0
                          | Some c \<Rightarrow> result0(''command'' \<mapsto> VStr c));
               result2 = fold (assign_pair h t) (match_all message) result1
           in validateParsedMessage h result2 t))"

text \<open>The order template of the documentation and of the example program.\<close>

definition orderTemplate :: message_template where
  "orderTemplate =
     \<lparr> tfields =
         [(''command'', \<lparr>ftype = ''string'', required = True, pattern = None\<rparr>),
          (''item'', \<lparr>ftype = ''string'', required = True, pattern = None\<rparr>),
          (''quantity'', \<lparr>ftype = ''number'', required = True, pattern = None\<rparr>),
          (''address'', \<lparr>ftype = ''string'', required = False, pattern = None\<rparr>)],
       examples = [] \<rparr>"

section \<open>Threads and their storage (Thread.js, storage/ThreadStorage.js)\<close>

text \<open>A JavaScript \<^verbatim>\<open>Error\<close> with its message.\<close>

datatype error = Error (message: string)

text \<open>
  An entry of a history array, or of the message list handed to the generation backend;
  \<^verbatim>\<open>name\<close> is present on function results only.
\<close>

record message =
  role :: string
  content :: string
  name :: "string option"

datatype meta_value = MStr string | MBool bool

text \<open>A metadata object, as the list of its entries.\<close>

type_synonym metadata = "(string \<times> meta_value) list"

record handoff_state =
  isHumanMode :: bool
  handoffTime :: int
  reason :: string
  metadata :: metadata
  threadId :: string

text \<open>The values this code stores in a thread's context.\<close>

datatype context_value =
    HandoffValue handoff_state
  | StringValue string
  | MetadataValue metadata

type_synonym thread_context = "string \<Rightarrow> context_value option"

text \<open>
  A \<^verbatim>\<open>Thread\<close> object. Thread objects and history arrays are shared and mutated in
  place, so both live in a store: \<open>history\<close> is the address of the array
  \<^verbatim>\<open>this._history\<close> points to, and a thread is known by the address of its object.
\<close>

record thread =
  chatId :: string
  t_context :: thread_context
  history :: nat
  lastUsed :: int

text \<open>
  The \<^verbatim>\<open>threadData\<close> object \<^verbatim>\<open>saveThread\<close> builds: the context is copied
  (\<^verbatim>\<open>Object.fromEntries\<close>), the history is the thread's own array, not a copy.
\<close>

record thread_data =
  d_chatId :: string
  d_context :: thread_context
  d_history :: nat
  d_lastUsed :: int

record function_call =
  fc_name :: string
  arguments :: string

text \<open>What \<^verbatim>\<open>generateResponse\<close> resolves to.\<close>

record ai_response =
  r_content :: string
  r_function_call :: "function_call option"

record ask_options =
  ignoreHandoffState :: bool
  fallbackResponse :: "string option"
  fallbackProvider :: "string option"
  handoffOnError :: bool

text \<open>
  The truth value JavaScript gives a string or \<^verbatim>\<open>undefined\<close>/\<^verbatim>\<open>null\<close>: only a
  string that is present and not empty is truthy.
\<close>

definition truthy :: "string option \<Rightarrow> bool" where
  "truthy v = (case v of None \<Rightarrow> False | Some x \<Rightarrow> x \<noteq> [])"

text \<open>
  What lies outside the repository. \<open>provider_registered\<close> is the registry
  \<^verbatim>\<open>AIProvider.providers\<close>. \<open>generateResponse p n sys msgs opts fns\<close> is the outcome
  of the \<open>n\<close>-th call to a generation backend, made on provider \<open>p\<close> with the thread
  context the system prompt is built from, the messages, the options and the names of
  the functions offered; \<open>Inl\<close> is a rejected call. \<open>stringify_error m\<close> is
  \<^verbatim>\<open>JSON.stringify({error: m})\<close>.
\<close>

record env =
  provider_registered :: "string \<Rightarrow> bool"
  generateResponse ::
    "string \<Rightarrow> nat \<Rightarrow> thread_context \<Rightarrow> message list \<Rightarrow> ask_options \<Rightarrow> string list option
       \<Rightarrow> error + ai_response"
  stringify_error :: "string \<Rightarrow> string"

text \<open>
  The context object of one \<^verbatim>\<open>ask\<close>, handed to every middleware step.
\<close>

record ask_context =
  c_chatId :: string
  c_prompt :: string
  c_options :: ask_options
  response :: "string option"
  c_thread :: "nat option"
  c_error :: "error option"

text \<open>
  A middleware step is user code. It is modelled by what it does to the context object
  and with \<^verbatim>\<open>next\<close>: called on a context it returns (\<open>Return\<close>) or throws
  (\<open>Throw\<close>), leaving the context as given, or it awaits \<^verbatim>\<open>next()\<close> with the context
  as given (\<open>AwaitNext\<close>) and goes on from the context it finds afterwards and the error
  \<^verbatim>\<open>next()\<close> rejected with, if any. What a step does to the assistant behind the back of
  \<^verbatim>\<open>ask\<close>, and a call of \<^verbatim>\<open>next\<close> that is not awaited, are outside the model.
\<close>

datatype step =
    Return ask_context
  | Throw ask_context error
  | AwaitNext ask_context "ask_context \<Rightarrow> error option \<Rightarrow> step"

type_synonym middleware_fn = "ask_context \<Rightarrow> step"

record message_result =
  mr_response :: "string option"
  mr_handled :: bool

text \<open>
  The human operator's handlers are user code as well: a handler is modelled by the
  error it throws, if any, and \<^verbatim>\<open>onMessage\<close> by its result.
\<close>

record human_handlers =
  onHandoff :: "(string \<Rightarrow> handoff_state \<Rightarrow> error option) option"
  onMessage :: "(string \<Rightarrow> string \<Rightarrow> handoff_state option \<Rightarrow> error + message_result option) option"
  onRelease :: "(string \<Rightarrow> string \<Rightarrow> metadata \<Rightarrow> error option) option"

text \<open>
  The assistant with everything it owns. The three JavaScript \<^verbatim>\<open>Map\<close>s with string
  keys are association lists in insertion order: \<open>threads\<close> is \<^verbatim>\<open>_threads\<close> (chat id to
  the address of the thread object), \<open>storage\<close> is the \<^verbatim>\<open>_threads\<close> map of the default
  \<^verbatim>\<open>MemoryThreadStorage\<close>, \<open>handoffState\<close> is \<^verbatim>\<open>_handoffState\<close>. \<open>thread_heap\<close> and
  \<open>array_heap\<close> are the stores of thread objects and history arrays, \<open>now\<close> is what
  \<^verbatim>\<open>Date.now()\<close> returns, and \<open>backend_calls\<close> counts the calls made to a generation
  backend.
\<close>

record assistant =
  provider :: string
  maxThreads :: int
  ttl :: int
  threads :: "(string \<times> nat) list"
  storage :: "(string \<times> thread_data) list"
  functionsMap :: "(string \<times> (string \<Rightarrow> error + string)) list"
  middleware :: "middleware_fn list"
  stats_requests :: nat
  stats_errors :: nat
  requestTimes :: "int list"
  handoffState :: "(string \<times> handoff_state) list"
  humanHandlers :: human_handlers
  thread_heap :: "nat \<Rightarrow> thread"
  next_thread :: nat
  array_heap :: "nat \<Rightarrow> message list"
  next_array :: nat
  now :: int
  backend_calls :: nat

text \<open>\<^verbatim>\<open>Map.prototype.get\<close>, \<^verbatim>\<open>set\<close> and \<^verbatim>\<open>delete\<close>.\<close>

abbreviation map_get :: "('k \<times> 'v) list \<Rightarrow> 'k \<Rightarrow> 'v option" where
  "map_get m k \<equiv> map_of m k"

abbreviation map_set :: "('k \<times> 'v) list \<Rightarrow> 'k \<Rightarrow> 'v \<Rightarrow> ('k \<times> 'v) list" where
  "map_set m k v \<equiv> AList.update k v m"

abbreviation map_delete :: "('k \<times> 'v) list \<Rightarrow> 'k \<Rightarrow> ('k \<times> 'v) list" where
  "map_delete m k \<equiv> AList.delete k m"

text \<open>The history array of the thread at address \<open>a\<close>.\<close>

definition history_of :: "assistant \<Rightarrow> nat \<Rightarrow> message list" where
  "history_of s a = array_heap s (history (thread_heap s a))"

text \<open>
  \<^verbatim>\<open>AIAssistant.saveThread(thread)\<close> on the in-memory storage, whose \<^verbatim>\<open>saveThread\<close>
  is \<^verbatim>\<open>this._threads.set(threadData.chatId, threadData)\<close>.
\<close>

definition saveThread :: "nat \<Rightarrow> assistant \<Rightarrow> assistant" where
  "saveThread a s =
     (let t = thread_heap s a
      in s\<lparr>storage := map_set (storage s) (chatId t)
             \<lparr>d_chatId = chatId t, d_context = t_context t,
              d_history = history t, d_lastUsed = lastUsed t\<rparr>\<rparr>)"

text \<open>
  \<^verbatim>\<open>Thread.addContext(key, value)\<close>. It calls \<^verbatim>\<open>_saveChanges()\<close> without awaiting; on
  the in-memory storage the save has taken place when the call returns.
\<close>

definition addContext :: "nat \<Rightarrow> string \<Rightarrow> context_value \<Rightarrow> assistant \<Rightarrow> assistant" where
  "addContext a k v s =
     saveThread a
       (s\<lparr>thread_heap := (thread_heap s)
            (a := (thread_heap s a)\<lparr>t_context := (t_context (thread_heap s a))(k \<mapsto> v)\<rparr>)\<rparr>)"

text \<open>\<^verbatim>\<open>thread._history.push(m)\<close>: the array is changed in place.\<close>

definition push_history :: "nat \<Rightarrow> message \<Rightarrow> assistant \<Rightarrow> assistant" where
  "push_history a m s =
     s\<lparr>array_heap := (array_heap s)
          (history (thread_heap s a) := array_heap s (history (thread_heap s a)) @ [m])\<rparr>"

text \<open>
  \<^verbatim>\<open>MemoryThreadStorage.getThread(chatId)\<close>: a snapshot older than the time to live is
  deleted and reported as absent.
\<close>

definition getThread :: "string \<Rightarrow> assistant \<Rightarrow> thread_data option \<times> assistant" where
  "getThread c s =
     (case map_get (storage s) c of
        None \<Rightarrow> (None, s)
      | Some d \<Rightarrow>
          (if ttl s \<noteq> 0 \<and> now s - d_lastUsed d > ttl s * 1000
           then (None, s\<lparr>storage := map_delete (storage s) c\<rparr>)
           else (Some d, s)))"

text \<open>
  The \<^verbatim>\<open>TypeError\<close> of destructuring \<^verbatim>\<open>threads.shift()\<close> when the array is empty,
  with the message Node gives it.
\<close>

definition shift_error :: error where
  "shift_error = Error ''undefined is not iterable (cannot read property Symbol(Symbol.iterator))''"

text \<open>
  The loop of \<^verbatim>\<open>_cleanupOldThreads\<close> over the sorted entries: while the working set is
  not under the limit, take the first entry, save its thread, delete it from the map.
\<close>

fun cleanup_loop :: "(string \<times> nat) list \<Rightarrow> assistant \<Rightarrow> (error + unit) \<times> assistant" where
  "cleanup_loop [] s =
     (if int (length (threads s)) \<ge> maxThreads s then (Inl shift_error, s) else (Inr (), s))"
| "cleanup_loop (e # es) s =
     (if int (length (threads s)) \<ge> maxThreads s
      then cleanup_loop es
             ((saveThread (snd e) s)\<lparr>threads := map_delete (threads s) (fst e)\<rparr>)
      else (Inr (), s))"

text \<open>
  \<^verbatim>\<open>_cleanupOldThreads\<close>: the entries of the working set, sorted by \<^verbatim>\<open>lastUsed\<close> with
  the stable sort of \<^verbatim>\<open>Array.prototype.sort\<close>.
\<close>

definition cleanupOldThreads :: "assistant \<Rightarrow> (error + unit) \<times> assistant" where
  "cleanupOldThreads s =
     cleanup_loop (sort_key (\<lambda>e. lastUsed (thread_heap s (snd e))) (threads s)) s"

text \<open>
  The constructor of \<^verbatim>\<open>Thread\<close>, called with the assistant, a chat id and thread
  data: the data's history array becomes the thread's array, a \<^verbatim>\<open>lastUsed\<close> of 0 is
  replaced by the current time, and \<^verbatim>\<open>AIProvider.create\<close> throws for a provider that
  is not registered. The result is the address of the new thread object.
\<close>

definition new_Thread :: "env \<Rightarrow> string \<Rightarrow> thread_data \<Rightarrow> assistant \<Rightarrow> (error + nat) \<times> assistant" where
  "new_Thread ev c d s =
     (if provider_registered ev (provider s)
      then (Inr (next_thread s),
            s\<lparr>thread_heap := (thread_heap s)
                  (next_thread s :=
                     \<lparr>chatId = c, t_context = d_context d, history = d_history d,
                      lastUsed = (if d_lastUsed d = 0 then now s else d_lastUsed d)\<rparr>),
               next_thread := Suc (next_thread s)\<rparr>)
      else (Inl (Error (''Unsupported AI provider: '' @ provider s)), s))"

text \<open>
  The thread data \<^verbatim>\<open>createThread\<close> makes when the storage has none: an empty
  context, a new empty history array, and the current time.
\<close>

definition fresh_thread_data :: "string \<Rightarrow> assistant \<Rightarrow> thread_data \<times> assistant" where
  "fresh_thread_data c s =
     (\<lparr>d_chatId = c, d_context = Map.empty, d_history = next_array s, d_lastUsed = now s\<rparr>,
      s\<lparr>array_heap := (array_heap s)(next_array s := []), next_array := Suc (next_array s)\<rparr>)"

text \<open>\<^verbatim>\<open>createThread(chatId)\<close>.\<close>

definition createThread :: "env \<Rightarrow> string \<Rightarrow> assistant \<Rightarrow> (error + nat) \<times> assistant" where
  "createThread ev c s =
     (case (if int (length (threads s)) \<ge> maxThreads s then cleanupOldThreads s else (Inr (), s)) of
        (Inl e, s1) \<Rightarrow> (Inl e, s1)
      | (Inr _, s1) \<Rightarrow>
          (case getThread c s1 of
             (loaded, s2) \<Rightarrow>
               (case (case loaded of Some d \<Rightarrow> (d, s2) | None \<Rightarrow> fresh_thread_data c s2) of
                  (d, s3) \<Rightarrow>
                    (case new_Thread ev c d s3 of
                       (Inl e, s4) \<Rightarrow> (Inl e, s4)
                     | (Inr a, s4) \<Rightarrow> (Inr a, s4\<lparr>threads := map_set (threads s4) c a\<rparr>)))))"

text \<open>
  \<^verbatim>\<open>Thread._handleFunctionCall\<close> followed by the \<^verbatim>\<open>JSON.stringify\<close> of its result,
  which is all \<^verbatim>\<open>_callAI\<close> does with it. A registered function takes the raw argument
  text and gives the JSON text of its result; \<open>Inl\<close> is a failure of \<^verbatim>\<open>JSON.parse\<close> or
  of the function, which is caught and reported to the model as \<^verbatim>\<open>{error: message}\<close>.
\<close>

definition handleFunctionCall :: "env \<Rightarrow> function_call \<Rightarrow> assistant \<Rightarrow> error + string" where
  "handleFunctionCall ev fc s =
     (case map_get (functionsMap s) (fc_name fc) of
        None \<Rightarrow> Inl (Error (''Function '' @ fc_name fc @ '' not found''))
      | Some fn \<Rightarrow>
          Inr (case fn (arguments fc) of
                 Inr json \<Rightarrow> json
               | Inl e \<Rightarrow> stringify_error ev (message e)))"

text \<open>
  The \<^verbatim>\<open>catch\<close> block of \<^verbatim>\<open>_callAI\<close>: the fallback response, else one call to the
  fallback provider (whose own failure is logged and dropped), else the error again.
\<close>

definition callAI_catch ::
  "env \<Rightarrow> thread_context \<Rightarrow> message list \<Rightarrow> ask_options \<Rightarrow> error \<Rightarrow> assistant
     \<Rightarrow> (error + string) \<times> assistant" where
  "callAI_catch ev sys msgs opts e s =
     (case (if truthy (fallbackResponse opts) then fallbackResponse opts else None) of
        Some fb \<Rightarrow> (Inr fb, s)
      | None \<Rightarrow>
          (case (if truthy (fallbackProvider opts) then fallbackProvider opts else None) of
             None \<Rightarrow> (Inl e, s)
           | Some fp \<Rightarrow>
               (if provider_registered ev fp
                then (case generateResponse ev fp (backend_calls s) sys msgs opts None of
                        Inr r \<Rightarrow> (Inr (r_content r), s\<lparr>backend_calls := Suc (backend_calls s)\<rparr>)
                      | Inl _ \<Rightarrow> (Inl e, s\<lparr>backend_calls := Suc (backend_calls s)\<rparr>))
                else (Inl e, s))))"

text \<open>
  \<^verbatim>\<open>Thread._callAI(systemPrompt, messages, options)\<close>. The source puts no bound on the
  chain of function calls, so the recursion takes fuel: \<open>None\<close> is a chain longer than
  the fuel. The recursive call is returned without \<^verbatim>\<open>await\<close>, so its rejection passes
  by this frame's \<^verbatim>\<open>catch\<close>; a failure of the provider or a function that is not
  registered is caught by the frame it happens in.
\<close>

fun callAI ::
  "nat \<Rightarrow> env \<Rightarrow> thread_context \<Rightarrow> message list \<Rightarrow> ask_options \<Rightarrow> assistant
     \<Rightarrow> ((error + string) \<times> assistant) option" where
  "callAI 0 ev sys msgs opts s = None"
| "callAI (Suc n) ev sys msgs opts s =
     (let fns = (if functionsMap s \<noteq> [] then Some (map fst (functionsMap s)) else None);
          s1 = s\<lparr>backend_calls := Suc (backend_calls s)\<rparr>
      in case generateResponse ev (provider s) (backend_calls s) sys msgs opts fns of
           Inl e \<Rightarrow> Some (callAI_catch ev sys msgs opts e s1)
         | Inr resp \<Rightarrow>
             (case r_function_call resp of
                None \<Rightarrow> Some (Inr (r_content resp), s1)
              | Some fc \<Rightarrow>
                  (case handleFunctionCall ev fc s1 of
                     Inl e \<Rightarrow> Some (callAI_catch ev sys msgs opts e s1)
                   | Inr result \<Rightarrow>
                       callAI n ev sys
                         (msgs @ [\<lparr>role = ''assistant'', content = r_content resp, name = None\<rparr>,
                                  \<lparr>role = ''function'', content = result, name = Some (fc_name fc)\<rparr>])
                         opts s1)))"

text \<open>
  The start of \<^verbatim>\<open>Thread.ask(prompt, options)\<close> on the thread at address \<open>a\<close>:
  \<^verbatim>\<open>lastUsed\<close> is set and the prompt is pushed onto the history.
\<close>

definition begin_ask :: "nat \<Rightarrow> string \<Rightarrow> assistant \<Rightarrow> assistant" where
  "begin_ask a p s =
     push_history a \<lparr>role = ''user'', content = p, name = None\<rparr>
       (s\<lparr>thread_heap := (thread_heap s)(a := (thread_heap s a)\<lparr>lastUsed := now s\<rparr>)\<rparr>)"

text \<open>\<^verbatim>\<open>xs.slice(-n)\<close>: the last \<open>n\<close> elements, or all of them if there are fewer.\<close>

definition slice_last :: "nat \<Rightarrow> 'a list \<Rightarrow> 'a list" where
  "slice_last n xs = drop (length xs - n) xs"

text \<open>
  \<^verbatim>\<open>if (this._history.length > 20) this._history = this._history.slice(-20)\<close>: the
  slice is a new array.
\<close>

definition trim_history :: "nat \<Rightarrow> assistant \<Rightarrow> assistant" where
  "trim_history a s =
     (let h = history_of s a
      in if length h > 20
         then s\<lparr>array_heap := (array_heap s)(next_array s := slice_last 20 h),
                thread_heap := (thread_heap s)(a := (thread_heap s a)\<lparr>history := next_array s\<rparr>),
                next_array := Suc (next_array s)\<rparr>
         else s)"

text \<open>
  The end of \<^verbatim>\<open>Thread.ask\<close> once the provider has answered: the response is pushed,
  the history is trimmed and the thread is saved.
\<close>

definition finish_ask :: "nat \<Rightarrow> string \<Rightarrow> assistant \<Rightarrow> assistant" where
  "finish_ask a r s =
     saveThread a (trim_history a (push_history a \<lparr>role = ''assistant'', content = r, name = None\<rparr> s))"

text \<open>\<^verbatim>\<open>Thread.ask(prompt, options)\<close> on the thread at address \<open>a\<close>.\<close>

definition Thread_ask ::
  "nat \<Rightarrow> env \<Rightarrow> nat \<Rightarrow> string \<Rightarrow> ask_options \<Rightarrow> assistant
     \<Rightarrow> ((error + string) \<times> assistant) option" where
  "Thread_ask fuel ev a p opts s =
     (case callAI fuel ev (t_context (thread_heap (begin_ask a p s) a))
             (history_of (begin_ask a p s) a) opts (begin_ask a p s) of
        None \<Rightarrow> None
      | Some (Inl e, s3) \<Rightarrow> Some (Inl e, s3)
      | Some (Inr r, s3) \<Rightarrow> Some (Inr r, finish_ask a r s3))"

section \<open>The assistant (AIAssistant.js)\<close>

subsection \<open>Middleware pipeline\<close>

text \<open>
  The state of one run of \<^verbatim>\<open>_executeMiddleware\<close>: the context object, the variable
  \<^verbatim>\<open>index\<close> that all calls of \<^verbatim>\<open>next\<close> share, and, for the statements only, the
  indices of the steps invoked so far.
\<close>

record pipeline =
  p_context :: ask_context
  index :: nat
  ran :: "nat list"

text \<open>
  Running a step to its end, given what \<^verbatim>\<open>next\<close> does. The result is the pipeline
  afterwards and the error the step rejected with, if any.
\<close>

primrec run_step ::
  "(pipeline \<Rightarrow> pipeline \<times> error option) \<Rightarrow> step \<Rightarrow> pipeline \<Rightarrow> pipeline \<times> error option" where
  "run_step nxt (Return c) pl = (pl\<lparr>p_context := c\<rparr>, None)"
| "run_step nxt (Throw c e) pl = (pl\<lparr>p_context := c\<rparr>, Some e)"
| "run_step nxt (AwaitNext c k) pl =
     (case nxt (pl\<lparr>p_context := c\<rparr>) of
        (pl', r) \<Rightarrow> run_step nxt (k (p_context pl') r) pl')"

text \<open>
  The closure \<^verbatim>\<open>next\<close>: if \<^verbatim>\<open>index\<close> is in range it takes the step at \<^verbatim>\<open>index\<close>,
  increments \<^verbatim>\<open>index\<close> and awaits the step, which gets \<^verbatim>\<open>next\<close> itself. Every call
  that runs a step moves \<^verbatim>\<open>index\<close> up, so calls nest at most as deep as there are
  steps left; the first argument bounds that depth, and \<open>executeMiddleware\<close> starts it
  at the number of steps.
\<close>

primrec next_from :: "nat \<Rightarrow> middleware_fn list \<Rightarrow> pipeline \<Rightarrow> pipeline \<times> error option" where
  "next_from 0 ms pl = (pl, None)"
| "next_from (Suc d) ms pl =
     (if index pl < length ms
      then run_step (next_from d ms) ((ms ! index pl) (p_context pl))
             (pl\<lparr>index := Suc (index pl), ran := ran pl @ [index pl]\<rparr>)
      else (pl, None))"

definition executeMiddleware :: "middleware_fn list \<Rightarrow> ask_context \<Rightarrow> pipeline \<times> error option" where
  "executeMiddleware ms c = next_from (length ms) ms \<lparr>p_context = c, index = 0, ran = []\<rparr>"

text \<open>\<^verbatim>\<open>use(middleware)\<close>.\<close>

definition use :: "middleware_fn \<Rightarrow> assistant \<Rightarrow> assistant" where
  "use m s = s\<lparr>middleware := middleware s @ [m]\<rparr>"

subsection \<open>Steps of particular shapes\<close>

text \<open>
  A step that changes the context by \<open>f\<close>, then calls \<^verbatim>\<open>next()\<close> once and awaits it
  as its last action: it returns when \<^verbatim>\<open>next()\<close> has returned and throws what
  \<^verbatim>\<open>next()\<close> threw.
\<close>

definition pass_on :: "(ask_context \<Rightarrow> ask_context) \<Rightarrow> middleware_fn" where
  "pass_on f c = AwaitNext (f c) (\<lambda>c' r. case r of None \<Rightarrow> Return c' | Some e \<Rightarrow> Throw c' e)"

text \<open>A step that sets \<^verbatim>\<open>context.response\<close> and returns without calling \<^verbatim>\<open>next()\<close>.\<close>

definition reply_with :: "string \<Rightarrow> middleware_fn" where
  "reply_with r c = Return (c\<lparr>response := Some r\<rparr>)"

text \<open>
  A step that awaits \<^verbatim>\<open>next()\<close> and, when it has returned, awaits \<^verbatim>\<open>next()\<close> a second
  time.
\<close>

definition await_twice :: middleware_fn where
  "await_twice c =
     AwaitNext c (\<lambda>c1 r1. case r1 of
         Some e \<Rightarrow> Throw c1 e
       | None \<Rightarrow> AwaitNext c1 (\<lambda>c2 r2. case r2 of None \<Rightarrow> Return c2 | Some e \<Rightarrow> Throw c2 e))"

subsection \<open>Asking\<close>

definition isInHumanMode :: "assistant \<Rightarrow> string \<Rightarrow> bool" where
  "isInHumanMode s c =
     (case map_get (handoffState s) c of None \<Rightarrow> False | Some h \<Rightarrow> isHumanMode h)"

definition human_mode_error :: error where
  "human_mode_error =
     Error ''Cannot use AI to respond while in human mode. Use releaseToAI first or set ignoreHandoffState option.''"

definition initial_context :: "string \<Rightarrow> string \<Rightarrow> ask_options \<Rightarrow> ask_context" where
  "initial_context c p opts =
     \<lparr>c_chatId = c, c_prompt = p, c_options = opts, response = None, c_thread = None,
      c_error = None\<rparr>"

text \<open>
  The statistics update after a successful \<^verbatim>\<open>thread.ask\<close>. The clock does not move
  inside one operation of the model, so the request time recorded is 0.
\<close>

definition record_time :: "assistant \<Rightarrow> assistant" where
  "record_time s =
     (let ts = requestTimes s @ [0]
      in s\<lparr>requestTimes := (if length ts > 100 then tl ts else ts)\<rparr>)"

text \<open>
  \<^verbatim>\<open>context.thread || this._threads.get(chatId)\<close>, and \<^verbatim>\<open>createThread\<close> when both are
  absent.
\<close>

definition get_or_create_thread ::
  "env \<Rightarrow> nat option \<Rightarrow> string \<Rightarrow> assistant \<Rightarrow> (error + nat) \<times> assistant" where
  "get_or_create_thread ev given c s =
     (case given of
        Some a \<Rightarrow> (Inr a, s)
      | None \<Rightarrow>
          (case map_get (threads s) c of
             Some a \<Rightarrow> (Inr a, s)
           | None \<Rightarrow> createThread ev c s))"

text \<open>The \<^verbatim>\<open>try\<close> block of \<^verbatim>\<open>ask\<close>.\<close>

definition ask_try ::
  "nat \<Rightarrow> env \<Rightarrow> string \<Rightarrow> string \<Rightarrow> ask_options \<Rightarrow> assistant
     \<Rightarrow> ((error + string) \<times> assistant) option" where
  "ask_try fuel ev c p opts s =
     (case executeMiddleware (middleware s) (initial_context c p opts) of
        (pl, Some e) \<Rightarrow> Some (Inl e, s)
      | (pl, None) \<Rightarrow>
          (case (if truthy (response (p_context pl)) then response (p_context pl) else None) of
             Some r \<Rightarrow> Some (Inr r, s)
           | None \<Rightarrow>
               (case get_or_create_thread ev (c_thread (p_context pl)) c s of
                  (Inl e, s1) \<Rightarrow> Some (Inl e, s1)
                | (Inr a, s1) \<Rightarrow>
                    (case Thread_ask fuel ev a p opts s1 of
                       None \<Rightarrow> None
                     | Some (Inl e, s2) \<Rightarrow> Some (Inl e, s2)
                     | Some (Inr r, s2) \<Rightarrow> Some (Inr r, record_time s2)))))"

text \<open>\<^verbatim>\<open>AIAssistant.ask(chatId, prompt, options)\<close>.\<close>

definition ask ::
  "nat \<Rightarrow> env \<Rightarrow> string \<Rightarrow> string \<Rightarrow> ask_options \<Rightarrow> assistant
     \<Rightarrow> ((error + string) \<times> assistant) option" where
  "ask fuel ev c p opts s =
     (if isInHumanMode s c \<and> \<not> ignoreHandoffState opts then Some (Inl human_mode_error, s)
      else (case ask_try fuel ev c p opts (s\<lparr>stats_requests := Suc (stats_requests s)\<rparr>) of
              None \<Rightarrow> None
            | Some (Inr r, s1) \<Rightarrow> Some (Inr r, s1)
            | Some (Inl e, s1) \<Rightarrow>
                (case (if truthy (fallbackResponse opts) then fallbackResponse opts else None) of
                   Some fb \<Rightarrow> Some (Inr fb, s1\<lparr>stats_errors := Suc (stats_errors s1)\<rparr>)
                 | None \<Rightarrow> Some (Inl e, s1\<lparr>stats_errors := Suc (stats_errors s1)\<rparr>))))"

subsection \<open>Handoff between the assistant and a human operator\<close>

text \<open>
  \<^verbatim>\<open>handoffToHuman(chatId, reason, metadata)\<close>. The \<^verbatim>\<open>onHandoff\<close> handler is called
  last and its error is caught and logged, so it changes neither the state nor the
  result.
\<close>

definition handoffToHuman ::
  "env \<Rightarrow> string \<Rightarrow> string \<Rightarrow> metadata \<Rightarrow> assistant \<Rightarrow> (error + bool) \<times> assistant" where
  "handoffToHuman ev c rsn md s =
     (case get_or_create_thread ev None c s of
        (Inl e, s1) \<Rightarrow> (Inl e, s1)
      | (Inr a, s1) \<Rightarrow>
          (let hs = \<lparr>isHumanMode = True, handoffTime = now s1, reason = rsn, metadata = md,
                     threadId = chatId (thread_heap s1 a)\<rparr>;
               s2 = s1\<lparr>handoffState := map_set (handoffState s1) c hs\<rparr>;
               s3 = addContext a ''handoffState'' (HandoffValue hs) s2
           in (Inr True, saveThread a s3)))"

text \<open>
  \<^verbatim>\<open>releaseToAI(chatId, summary, metadata)\<close>; an absent summary is the empty string and
  an absent metadata object has no entries. The \<^verbatim>\<open>onRelease\<close> handler is called last
  and its error is caught and logged.
\<close>

definition releaseToAI ::
  "env \<Rightarrow> string \<Rightarrow> string \<Rightarrow> metadata \<Rightarrow> assistant \<Rightarrow> (error + bool) \<times> assistant" where
  "releaseToAI ev c summary md s =
     (if \<not> isInHumanMode s c then (Inr False, s)
      else (case get_or_create_thread ev None c s of
              (Inl e, s1) \<Rightarrow> (Inl e, s1)
            | (Inr a, s1) \<Rightarrow>
                (let s2 = s1\<lparr>handoffState := map_delete (handoffState s1) c\<rparr>;
                     s3 = (if summary \<noteq> []
                           then push_history a
                                  \<lparr>role = ''system'',
                                   content = ''Human operator summary: '' @ summary,
                                   name = None\<rparr>
                                  (addContext a ''humanInteractionSummary'' (StringValue summary) s2)
                           else s2);
                     s4 = (if md \<noteq> []
                           then addContext a ''releaseMetadata'' (MetadataValue md) s3
                           else s3)
                 in (Inr True, saveThread a s4))))"

text \<open>An element of the result of \<^verbatim>\<open>getHumanModeChats\<close>: \<^verbatim>\<open>{chatId, ...state}\<close>.\<close>

record human_mode_chat = handoff_state +
  hm_chatId :: string

definition getHumanModeChats :: "assistant \<Rightarrow> human_mode_chat list" where
  "getHumanModeChats s =
     map (\<lambda>e. handoff_state.extend (snd e) \<lparr>hm_chatId = fst e\<rparr>) (handoffState s)"

text \<open>\<^verbatim>\<open>registerHumanHandlers(handlers)\<close>: a handler that is given replaces the old one.\<close>

definition registerHumanHandlers :: "human_handlers \<Rightarrow> assistant \<Rightarrow> assistant" where
  "registerHumanHandlers h s =
     s\<lparr>humanHandlers :=
         \<lparr>onHandoff = (case onHandoff h of Some f \<Rightarrow> Some f | None \<Rightarrow> onHandoff (humanHandlers s)),
          onMessage = (case onMessage h of Some f \<Rightarrow> Some f | None \<Rightarrow> onMessage (humanHandlers s)),
          onRelease = (case onRelease h of Some f \<Rightarrow> Some f | None \<Rightarrow> onRelease (humanHandlers s))\<rparr>\<rparr>"

text \<open>\<^verbatim>\<open>registerFunctions(functions)\<close>, the object given as the list of its entries.\<close>

definition registerFunctions :: "(string \<times> (string \<Rightarrow> error + string)) list \<Rightarrow> assistant \<Rightarrow> assistant" where
  "registerFunctions fs s =
     s\<lparr>functionsMap := fold (\<lambda>e m. map_set m (fst e) (snd e)) fs (functionsMap s)\<rparr>"

subsection \<open>The dispatcher\<close>

text \<open>\<^verbatim>\<open>String.prototype.includes\<close>.\<close>

fun str_includes :: "string \<Rightarrow> string \<Rightarrow> bool" where
  "str_includes [] sub = (sub = [])"
| "str_includes (c # cs) sub = (take (length sub) (c # cs) = sub \<or> str_includes cs sub)"

text \<open>
  A group of literal alternatives under the flag \<^verbatim>\<open>i\<close>, tried in order at the start of
  \<open>s\<close>; the result is the input after the match. The alternatives are in lower case,
  and no alternative used here is a prefix of another, so at most one of them matches.
\<close>

fun match_alt :: "string list \<Rightarrow> string \<Rightarrow> string option" where
  "match_alt [] s = None"
| "match_alt (w # ws) s =
     (if toLowerCase (take (length w) s) = w then Some (drop (length w) s) else match_alt ws s)"

text \<open>The characters \<^verbatim>\<open>.\<close> does not match, among the code units below 256.\<close>

definition is_line_terminator :: "char \<Rightarrow> bool" where
  "is_line_terminator c = ((of_char c :: nat) = 10 \<or> (of_char c :: nat) = 13)"

text \<open>
  The match of \<^verbatim>\<open>\s+(.+)\<close> at the start of \<open>r\<close>: the second group. The spaces are
  taken greedily. What follows them starts with a character that is no space, so \<^verbatim>\<open>.+\<close>
  matches from there to the end of the line. If nothing follows them, the spaces give
  characters back from the end, and the group is the last of them (the first apart) that
  is no line terminator.
\<close>

definition reason_after :: "string \<Rightarrow> string option" where
  "reason_after r =
     (let ws = takeWhile is_space_char r; r1 = dropWhile is_space_char r
      in if ws = [] then None
         else if r1 \<noteq> [] then Some (takeWhile (\<lambda>c. \<not> is_line_terminator c) r1)
         else (case filter (\<lambda>c. \<not> is_line_terminator c) (tl ws) of
                 [] \<Rightarrow> None
               | x # xs \<Rightarrow> Some [last (x # xs)]))"

text \<open>
  \<^verbatim>\<open>message.match(/#(handoff|human|agent)\s+(.+)/i)\<close>: the second group of the
  leftmost match.
\<close>

fun user_reason :: "string \<Rightarrow> string option" where
  "user_reason [] = None"
| "user_reason (c # cs) =
     (if c = CHR ''#''
      then (case match_alt [''handoff'', ''human'', ''agent''] cs of
              Some r \<Rightarrow> (case reason_after r of Some g \<Rightarrow> Some g | None \<Rightarrow> user_reason cs)
            | None \<Rightarrow> user_reason cs)
      else user_reason cs)"

text \<open>
  The match of \<^verbatim>\<open>\s*:?\s*([^\]]+)\]\<close> at the start of \<open>x\<close>: the second group. The
  group cannot hold a closing bracket and is followed by one, so everything lies before
  the first closing bracket of \<open>x\<close>. Spaces, an optional colon and spaces are taken
  greedily and give back one character when the group would be empty otherwise.
\<close>

definition ai_reason_after :: "string \<Rightarrow> string option" where
  "ai_reason_after x =
     (if dropWhile (\<lambda>c. c \<noteq> CHR '']'') x = [] then None
      else (let y = takeWhile (\<lambda>c. c \<noteq> CHR '']'') x;
                ws1 = takeWhile is_space_char y;
                rest1 = dropWhile is_space_char y
            in (case rest1 of
                  [] \<Rightarrow> (if ws1 = [] then None else Some [last ws1])
                | c # rest2 \<Rightarrow>
                    (if c = CHR '':''
                     then (let g = dropWhile is_space_char rest2
                           in if g \<noteq> [] then Some g
                              else if rest2 \<noteq> [] then Some [last rest2]
                              else Some '':'')
                     else Some rest1))))"

text \<open>
  \<^verbatim>\<open>response.match(/\[(handoff|human needed)\s*:?\s*([^\]]+)\]/i)\<close>: the second group
  of the leftmost match.
\<close>

fun ai_reason :: "string \<Rightarrow> string option" where
  "ai_reason [] = None"
| "ai_reason (c # cs) =
     (if c = CHR ''[''
      then (case match_alt [''handoff'', ''human needed''] cs of
              Some x \<Rightarrow> (case ai_reason_after x of Some g \<Rightarrow> Some g | None \<Rightarrow> ai_reason cs)
            | None \<Rightarrow> ai_reason cs)
      else ai_reason cs)"

lemma match_alt_drop: "match_alt ws s = Some r \<Longrightarrow> \<exists>n. r = drop n s"
  by (induction ws) (auto split: if_splits)

lemma tag_rest_shorter:
  assumes "match_alt ws cs = Some x"
  shows "length (dropWhile P x) - Suc 0 < Suc (length cs)"
proof -
  from assms obtain n where "x = drop n cs" using match_alt_drop by blast
  then have "length x \<le> length cs" by simp
  moreover have "length (dropWhile P x) \<le> length x"
    by (rule length_dropWhile_le)
  ultimately show ?thesis by simp
qed

text \<open>
  \<^verbatim>\<open>response.replace(/\[(handoff|human needed)[^\]]*\]/gi, '')\<close>: every tag, up to its
  first closing bracket, is removed.
\<close>

function strip_tags :: "string \<Rightarrow> string" where
  "strip_tags [] = []"
| "strip_tags (c # cs) =
     (if c = CHR ''[''
      then (case match_alt [''handoff'', ''human needed''] cs of
              Some x \<Rightarrow>
                (if dropWhile (\<lambda>c. c \<noteq> CHR '']'') x \<noteq> []
                 then strip_tags (tl (dropWhile (\<lambda>c. c \<noteq> CHR '']'') x))
                 else c # strip_tags cs)
            | None \<Rightarrow> c # strip_tags cs)
      else c # strip_tags cs)"
  by pat_completeness auto
termination
  by (relation "measure length") (auto simp del: match_alt.simps intro: tag_rest_shorter)

text \<open>The result object of \<^verbatim>\<open>processMessage\<close>, by its \<^verbatim>\<open>type\<close>.\<close>

datatype process_result =
    HumanResult "string option" bool "handoff_state option"
  | HandoffResult string "handoff_state option" "string option"
  | AIResult string

definition result_type :: "process_result \<Rightarrow> string" where
  "result_type r =
     (case r of
        HumanResult _ _ _ \<Rightarrow> ''human''
      | HandoffResult _ _ _ \<Rightarrow> ''handoff''
      | AIResult _ \<Rightarrow> ''ai'')"

definition transfer_message :: string where
  "transfer_message = ''I'm transferring you to a human agent who will assist you shortly.''"

definition apology_message :: string where
  "apology_message =
     ''I'm having trouble processing your request. I'm transferring you to a human agent who will assist you shortly.''"

text \<open>
  The \<^verbatim>\<open>catch\<close> block of \<^verbatim>\<open>processMessage\<close>. An error of \<^verbatim>\<open>handoffToHuman\<close> inside
  it leaves \<^verbatim>\<open>processMessage\<close>.
\<close>

definition process_catch ::
  "env \<Rightarrow> string \<Rightarrow> string \<Rightarrow> ask_options \<Rightarrow> error \<Rightarrow> assistant
     \<Rightarrow> (error + process_result) \<times> assistant" where
  "process_catch ev c msg opts e s =
     (if handoffOnError opts
      then (case handoffToHuman ev c ''AI processing error''
                   [(''error'', MStr (message e)), (''triggerMessage'', MStr msg),
                    (''automatic'', MBool True)] s of
              (Inl e', s1) \<Rightarrow> (Inl e', s1)
            | (Inr _, s1) \<Rightarrow>
                (Inr (HandoffResult apology_message (map_get (handoffState s1) c)
                        (Some (message e))), s1))
      else (Inl e, s))"

text \<open>
  The \<^verbatim>\<open>try\<close> block of \<^verbatim>\<open>processMessage\<close>: the message is given to \<^verbatim>\<open>ask\<close>, and a
  response that holds \<^verbatim>\<open>[handoff]\<close> or \<^verbatim>\<open>[human needed]\<close> hands the chat to a human.
\<close>

definition process_try ::
  "nat \<Rightarrow> env \<Rightarrow> string \<Rightarrow> string \<Rightarrow> ask_options \<Rightarrow> assistant
     \<Rightarrow> ((error + process_result) \<times> assistant) option" where
  "process_try fuel ev c msg opts s =
     (case ask fuel ev c msg opts s of
        None \<Rightarrow> None
      | Some (Inl e, s1) \<Rightarrow> Some (Inl e, s1)
      | Some (Inr r, s1) \<Rightarrow>
          (if str_includes (toLowerCase r) ''[handoff]''
                \<or> str_includes (toLowerCase r) ''[human needed]''
           then (let clean = trim (strip_tags r)
                 in case handoffToHuman ev c
                           (case ai_reason r of
                              Some g \<Rightarrow> g
                            | None \<Rightarrow> ''AI requested human assistance'')
                           [(''triggerMessage'', MStr msg), (''aiResponse'', MStr clean),
                            (''automatic'', MBool True)] s1 of
                      (Inl e, s2) \<Rightarrow> Some (Inl e, s2)
                    | (Inr _, s2) \<Rightarrow>
                        Some (Inr (HandoffResult
                                     (if clean \<noteq> [] then clean else transfer_message)
                                     (map_get (handoffState s2) c) None), s2))
           else Some (Inr (AIResult r), s1)))"

text \<open>Whether a message carries one of the tags that ask for a human.\<close>

definition has_handoff_tag :: "string \<Rightarrow> bool" where
  "has_handoff_tag msg =
     (str_includes (toLowerCase msg) ''#handoff'' \<or> str_includes (toLowerCase msg) ''#human''
        \<or> str_includes (toLowerCase msg) ''#agent'')"

text \<open>\<^verbatim>\<open>processMessage(chatId, message, options)\<close>.\<close>

definition processMessage ::
  "nat \<Rightarrow> env \<Rightarrow> string \<Rightarrow> string \<Rightarrow> ask_options \<Rightarrow> assistant
     \<Rightarrow> ((error + process_result) \<times> assistant) option" where
  "processMessage fuel ev c msg opts s =
     (if isInHumanMode s c
      then Some (Inr (case onMessage (humanHandlers s) of
                        None \<Rightarrow> HumanResult None False (map_get (handoffState s) c)
                      | Some h \<Rightarrow>
                          (case h c msg (map_get (handoffState s) c) of
                             Inl e \<Rightarrow> HumanResult None False (map_get (handoffState s) c)
                           | Inr None \<Rightarrow> HumanResult None False (map_get (handoffState s) c)
                           | Inr (Some r) \<Rightarrow>
                               HumanResult (mr_response r) (mr_handled r)
                                 (map_get (handoffState s) c))), s)
      else if has_handoff_tag msg
      then (case handoffToHuman ev c
                   (case user_reason msg of
                      Some r \<Rightarrow> r
                    | None \<Rightarrow> ''User requested human assistance'')
                   [(''triggerMessage'', MStr msg), (''automatic'', MBool False)] s of
              (Inl e, s1) \<Rightarrow> Some (Inl e, s1)
            | (Inr _, s1) \<Rightarrow>
                Some (Inr (HandoffResult transfer_message (map_get (handoffState s1) c) None), s1))
      else (case process_try fuel ev c msg opts s of
              None \<Rightarrow> None
            | Some (Inl e, s1) \<Rightarrow> Some (process_catch ev c msg opts e s1)
            | Some (Inr r, s1) \<Rightarrow> Some (Inr r, s1)))"

subsection \<open>Construction and the states an assistant can be in\<close>

text \<open>
  The options of the constructor that the model keeps; \<open>storage_maxThreads\<close> and
  \<open>storage_ttl\<close> are the entries of \<^verbatim>\<open>options.storageOptions\<close>, which are spread over
  the defaults. The storage provider is the default, \<^verbatim>\<open>'memory'\<close>; MongoDB and SQL
  storage are outside the model.
\<close>

record assistant_options =
  o_provider :: "string option"
  o_maxThreads :: "int option"
  o_ttl :: "int option"
  storage_maxThreads :: "int option"
  storage_ttl :: "int option"

text \<open>\<^verbatim>\<open>x || d\<close> for a number that may be absent.\<close>

definition or_default :: "int option \<Rightarrow> int \<Rightarrow> int" where
  "or_default v d = (case v of None \<Rightarrow> d | Some x \<Rightarrow> (if x = 0 then d else x))"

text \<open>\<^verbatim>\<open>new AIAssistant(client, options)\<close> at time \<open>t\<close>.\<close>

definition new_assistant :: "assistant_options \<Rightarrow> int \<Rightarrow> assistant" where
  "new_assistant opts t =
     \<lparr>provider = (case o_provider opts of
                    None \<Rightarrow> ''openai''
                  | Some x \<Rightarrow> (if x = [] then ''openai'' else x)),
      maxThreads = (case storage_maxThreads opts of
                      Some m \<Rightarrow> m
                    | None \<Rightarrow> or_default (o_maxThreads opts) 1000),
      ttl = (case storage_ttl opts of
               Some x \<Rightarrow> x
             | None \<Rightarrow> or_default (o_ttl opts) 3600),
      threads = [],
      storage = [],
      functionsMap = [],
      middleware = [],
      stats_requests = 0,
      stats_errors = 0,
      requestTimes = [],
      handoffState = [],
      humanHandlers = \<lparr>onHandoff = None, onMessage = None, onRelease = None\<rparr>,
      thread_heap = (\<lambda>_. \<lparr>chatId = [], t_context = Map.empty, history = 0, lastUsed = 0\<rparr>),
      next_thread = 0,
      array_heap = (\<lambda>_. []),
      next_array = 0,
      now = t,
      backend_calls = 0\<rparr>"

text \<open>
  The states of an assistant: the state after construction, and every state a public
  operation that returns or throws leaves behind. Time passes between operations.
\<close>

inductive reachable :: "env \<Rightarrow> assistant \<Rightarrow> bool" for ev :: env where
  r_new: "reachable ev (new_assistant opts t)"
| r_clock: "reachable ev s \<Longrightarrow> now s \<le> t \<Longrightarrow> reachable ev (s\<lparr>now := t\<rparr>)"
| r_use: "reachable ev s \<Longrightarrow> reachable ev (use m s)"
| r_registerFunctions: "reachable ev s \<Longrightarrow> reachable ev (registerFunctions fs s)"
| r_registerHumanHandlers: "reachable ev s \<Longrightarrow> reachable ev (registerHumanHandlers h s)"
| r_createThread: "reachable ev s \<Longrightarrow> createThread ev c s = (r, s') \<Longrightarrow> reachable ev s'"
| r_saveThread: "reachable ev s \<Longrightarrow> reachable ev (saveThread a s)"
| r_addContext: "reachable ev s \<Longrightarrow> reachable ev (addContext a k v s)"
| r_Thread_ask:
    "reachable ev s \<Longrightarrow> Thread_ask fuel ev a p opts s = Some (r1, s') \<Longrightarrow> reachable ev s'"
| r_ask: "reachable ev s \<Longrightarrow> ask fuel ev c p opts s = Some (r1, s') \<Longrightarrow> reachable ev s'"
| r_handoffToHuman:
    "reachable ev s \<Longrightarrow> handoffToHuman ev c rsn md s = (r2, s') \<Longrightarrow> reachable ev s'"
| r_releaseToAI:
    "reachable ev s \<Longrightarrow> releaseToAI ev c summary md s = (r2, s') \<Longrightarrow> reachable ev s'"
| r_processMessage:
    "reachable ev s \<Longrightarrow> processMessage fuel ev c msg opts s = Some (r3, s') \<Longrightarrow> reachable ev s'"

subsection \<open>Sequences of asks on one thread\<close>

text \<open>
  \<^verbatim>\<open>Thread.ask\<close> called on the thread at address \<open>a\<close> once for every element of a list
  of prompts and options, each call returning normally: the answer of each call with
  the state after it. \<open>None\<close> if a call throws or does not return.
\<close>

fun Thread_ask_all ::
  "nat \<Rightarrow> env \<Rightarrow> nat \<Rightarrow> (string \<times> ask_options) list \<Rightarrow> assistant
     \<Rightarrow> (string \<times> assistant) list option" where
  "Thread_ask_all fuel ev a [] s = Some []"
| "Thread_ask_all fuel ev a (q # qs) s =
     (case Thread_ask fuel ev a (fst q) (snd q) s of
        Some (Inr r, s') \<Rightarrow> map_option ((#) (r, s')) (Thread_ask_all fuel ev a qs s')
      | _ \<Rightarrow> None)"

subsection \<open>A concrete environment and concrete states\<close>

text \<open>
  The instances below are evaluated in an environment whose only registered provider
  is \<^verbatim>\<open>openai\<close> and whose backend answers every call with \<^verbatim>\<open>pong\<close>, and in one whose
  backend rejects every call.
\<close>

definition pong_env :: env where
  "pong_env =
     \<lparr>provider_registered = (\<lambda>p. p = ''openai''),
      generateResponse = (\<lambda>p n sys msgs opts fns. Inr \<lparr>r_content = ''pong'', r_function_call = None\<rparr>),
      stringify_error = (\<lambda>m. m)\<rparr>"

definition down_env :: env where
  "down_env =
     \<lparr>provider_registered = (\<lambda>p. p = ''openai''),
      generateResponse = (\<lambda>p n sys msgs opts fns. Inl (Error ''backend down'')),
      stringify_error = (\<lambda>m. m)\<rparr>"

definition no_options :: ask_options where
  "no_options =
     \<lparr>ignoreHandoffState = False, fallbackResponse = None, fallbackProvider = None,
      handoffOnError = False\<rparr>"

definition fresh_assistant :: assistant where
  "fresh_assistant =
     new_assistant
       \<lparr>o_provider = None, o_maxThreads = None, o_ttl = None, storage_maxThreads = None,
        storage_ttl = None\<rparr> 0"

text \<open>The chat \<^verbatim>\<open>alice\<close> handed to a human operator, on a fresh assistant.\<close>

definition alice_with_human :: assistant where
  "alice_with_human = snd (handoffToHuman pong_env ''alice'' ''billing'' [] fresh_assistant)"

text \<open>
  A fresh assistant with one thread, for \<^verbatim>\<open>bob\<close>, whose history holds 19 entries,
  \<^verbatim>\<open>m01\<close> the oldest.
\<close>

definition bob_long_history :: assistant where
  "bob_long_history =
     (snd (createThread pong_env ''bob'' fresh_assistant))
       \<lparr>array_heap := (\<lambda>_. map (\<lambda>c. \<lparr>role = ''user'', content = c, name = None\<rparr>)
          [''m01'', ''m02'', ''m03'', ''m04'', ''m05'', ''m06'', ''m07'', ''m08'', ''m09'', ''m10'',
           ''m11'', ''m12'', ''m13'', ''m14'', ''m15'', ''m16'', ''m17'', ''m18'', ''m19''])\<rparr>"

text \<open>
  The handoff map is well formed: no chat has two entries, and every entry has
  \<^verbatim>\<open>isHumanMode\<close> true.
\<close>

definition handoff_inv :: "assistant \<Rightarrow> bool" where
  "handoff_inv s \<longleftrightarrow> distinct (map fst (handoffState s)) \<and> (\<forall>e \<in> set (handoffState s). isHumanMode (snd e))"

text \<open>
  An assistant whose working set holds one thread, created at time 1000; the state
  after it has answered \<^verbatim>\<open>hello\<close> for \<^verbatim>\<open>alice\<close>; and that state after a thread was
  created for \<^verbatim>\<open>bob\<close>.
\<close>

definition single_slot_assistant :: assistant where
  "single_slot_assistant =
     new_assistant
       \<lparr>o_provider = None, o_maxThreads = Some 1, o_ttl = None, storage_maxThreads = None,
        storage_ttl = None\<rparr> 1000"

definition alice_asked :: assistant where
  "alice_asked =
     (case ask (Suc 0) pong_env ''alice'' ''hello'' no_options single_slot_assistant of
        Some (r, s') \<Rightarrow> s'
      | None \<Rightarrow> single_slot_assistant)"

definition alice_evicted :: assistant where
  "alice_evicted = snd (createThread pong_env ''bob'' alice_asked)"

section \<open>Properties\<close>

subsection \<open>How the basic operations act on the state\<close>

lemma saveThread_simps [simp]:
  "provider (saveThread a s) = provider s"
  "maxThreads (saveThread a s) = maxThreads s"
  "ttl (saveThread a s) = ttl s"
  "threads (saveThread a s) = threads s"
  "functionsMap (saveThread a s) = functionsMap s"
  "middleware (saveThread a s) = middleware s"
  "stats_requests (saveThread a s) = stats_requests s"
  "stats_errors (saveThread a s) = stats_errors s"
  "requestTimes (saveThread a s) = requestTimes s"
  "handoffState (saveThread a s) = handoffState s"
  "humanHandlers (saveThread a s) = humanHandlers s"
  "thread_heap (saveThread a s) = thread_heap s"
  "next_thread (saveThread a s) = next_thread s"
  "array_heap (saveThread a s) = array_heap s"
  "next_array (saveThread a s) = next_array s"
  "now (saveThread a s) = now s"
  "backend_calls (saveThread a s) = backend_calls s"
  by (simp_all add: saveThread_def Let_def)

lemma saveThread_storage:
  "storage (saveThread a s) =
     map_set (storage s) (chatId (thread_heap s a))
       \<lparr>d_chatId = chatId (thread_heap s a), d_context = t_context (thread_heap s a),
        d_history = history (thread_heap s a), d_lastUsed = lastUsed (thread_heap s a)\<rparr>"
  by (simp add: saveThread_def Let_def)

lemma history_of_saveThread [simp]: "history_of (saveThread a s) b = history_of s b"
  by (simp add: history_of_def)

lemma addContext_simps [simp]:
  "provider (addContext a k v s) = provider s"
  "maxThreads (addContext a k v s) = maxThreads s"
  "ttl (addContext a k v s) = ttl s"
  "threads (addContext a k v s) = threads s"
  "functionsMap (addContext a k v s) = functionsMap s"
  "middleware (addContext a k v s) = middleware s"
  "stats_requests (addContext a k v s) = stats_requests s"
  "stats_errors (addContext a k v s) = stats_errors s"
  "requestTimes (addContext a k v s) = requestTimes s"
  "handoffState (addContext a k v s) = handoffState s"
  "humanHandlers (addContext a k v s) = humanHandlers s"
  "next_thread (addContext a k v s) = next_thread s"
  "array_heap (addContext a k v s) = array_heap s"
  "next_array (addContext a k v s) = next_array s"
  "now (addContext a k v s) = now s"
  "backend_calls (addContext a k v s) = backend_calls s"
  "thread_heap (addContext a k v s) =
     (thread_heap s)(a := (thread_heap s a)\<lparr>t_context := (t_context (thread_heap s a))(k \<mapsto> v)\<rparr>)"
  by (simp_all add: addContext_def)

lemma history_of_addContext [simp]: "history_of (addContext a k v s) b = history_of s b"
  by (simp add: history_of_def)

lemma push_history_simps [simp]:
  "provider (push_history a m s) = provider s"
  "maxThreads (push_history a m s) = maxThreads s"
  "ttl (push_history a m s) = ttl s"
  "threads (push_history a m s) = threads s"
  "storage (push_history a m s) = storage s"
  "functionsMap (push_history a m s) = functionsMap s"
  "middleware (push_history a m s) = middleware s"
  "stats_requests (push_history a m s) = stats_requests s"
  "stats_errors (push_history a m s) = stats_errors s"
  "requestTimes (push_history a m s) = requestTimes s"
  "handoffState (push_history a m s) = handoffState s"
  "humanHandlers (push_history a m s) = humanHandlers s"
  "thread_heap (push_history a m s) = thread_heap s"
  "next_thread (push_history a m s) = next_thread s"
  "next_array (push_history a m s) = next_array s"
  "now (push_history a m s) = now s"
  "backend_calls (push_history a m s) = backend_calls s"
  by (simp_all add: push_history_def)

lemma history_of_push_history [simp]:
  "history_of (push_history a m s) a = history_of s a @ [m]"
  by (simp add: history_of_def push_history_def)

subsection \<open>The concrete states\<close>

lemma alice_handoffState:
  "handoffState alice_with_human =
     [(''alice'', \<lparr>isHumanMode = True, handoffTime = 0, reason = ''billing'', metadata = [],
                  threadId = ''alice''\<rparr>)]"
  by (simp add: alice_with_human_def handoffToHuman_def get_or_create_thread_def createThread_def
        new_Thread_def fresh_thread_data_def fresh_assistant_def new_assistant_def or_default_def
        getThread_def pong_env_def Let_def)

lemma alice_in_human_mode: "isInHumanMode alice_with_human ''alice''"
  by (simp add: isInHumanMode_def alice_handoffState)

lemma no_options_simps [simp]:
  "ignoreHandoffState no_options = False"
  "fallbackResponse no_options = None"
  "fallbackProvider no_options = None"
  "handoffOnError no_options = False"
  by (simp_all add: no_options_def)

lemma pong_Thread_ask:
  "\<exists>s'. Thread_ask (Suc n) pong_env a p opts s = Some (Inr ''pong'', s')"
  by (simp add: Thread_ask_def Let_def pong_env_def)

subsection \<open>Asking while a human owns the chat\<close>

text \<open>
  Claim C1. For a chat in human mode and any prompt, \<^verbatim>\<open>ask\<close> without the option
  \<^verbatim>\<open>ignoreHandoffState\<close> throws the human-mode error, whatever the fuel, the
  environment and the registered middleware are, and it leaves the whole state as it
  was: no request is counted, no step has run, no thread is created or touched, and
  the count of backend calls is the same.
\<close>

theorem ask_in_human_mode_throws:
  assumes "isInHumanMode s c" and "\<not> ignoreHandoffState opts"
  shows "ask fuel ev c p opts s = Some (Inl human_mode_error, s)"
  using assms by (simp add: ask_def)

theorem ask_in_human_mode_throws_witness:
  "isInHumanMode alice_with_human ''alice'' \<and> \<not> ignoreHandoffState no_options \<and>
   ask 5 pong_env ''alice'' ''hello'' no_options alice_with_human =
     Some (Inl human_mode_error, alice_with_human)"
proof -
  have h: "\<not> ignoreHandoffState no_options" by simp
  show ?thesis
    using alice_in_human_mode h ask_in_human_mode_throws [OF alice_in_human_mode h]
    by blast
qed

text \<open>
  Claim C9. The guard comes before the \<^verbatim>\<open>try\<close> block whose \<^verbatim>\<open>catch\<close> returns
  \<^verbatim>\<open>options.fallbackResponse\<close>: for a chat in human mode, \<^verbatim>\<open>ask\<close> without
  \<^verbatim>\<open>ignoreHandoffState\<close> throws the human-mode error also when a fallback response is
  supplied, and the error counter of the recovery path is not touched.
\<close>

theorem human_mode_guard_before_fallback:
  assumes "isInHumanMode s c" and "\<not> ignoreHandoffState opts"
  shows "ask fuel ev c p (opts\<lparr>fallbackResponse := Some fb\<rparr>) s = Some (Inl human_mode_error, s)"
  using assms by (simp add: ask_def)

theorem human_mode_guard_before_fallback_witness:
  "isInHumanMode alice_with_human ''alice'' \<and> \<not> ignoreHandoffState no_options \<and>
   ask 5 pong_env ''alice'' ''hello'' (no_options\<lparr>fallbackResponse := Some ''Please wait.''\<rparr>)
       alice_with_human =
     Some (Inl human_mode_error, alice_with_human)"
proof -
  have h: "\<not> ignoreHandoffState no_options" by simp
  show ?thesis
    using alice_in_human_mode h human_mode_guard_before_fallback [OF alice_in_human_mode h]
    by blast
qed

subsection \<open>The middleware runner\<close>

text \<open>
  The depth given to \<open>next_from\<close> is no restriction. A call of \<^verbatim>\<open>next\<close> never lowers
  \<^verbatim>\<open>index\<close>, so with any depth of at least the number of steps left \<open>next_from\<close> is
  the closure of the source: it satisfies the equation that \<^verbatim>\<open>next\<close> is defined by.
\<close>

lemma run_step_index_mono:
  assumes "\<And>pl. index pl \<le> index (fst (nxt pl))"
  shows "index pl \<le> index (fst (run_step nxt st pl))"
proof (induction st arbitrary: pl)
  case (Return c)
  show ?case by simp
next
  case (Throw c e)
  show ?case by simp
next
  case (AwaitNext c k)
  obtain pl' r where n: "nxt (pl\<lparr>p_context := c\<rparr>) = (pl', r)" by (cases "nxt (pl\<lparr>p_context := c\<rparr>)")
  have "index (pl\<lparr>p_context := c\<rparr>) \<le> index (fst (nxt (pl\<lparr>p_context := c\<rparr>)))" by (rule assms)
  then have 1: "index pl \<le> index pl'" using n by simp
  have "index pl' \<le> index (fst (run_step nxt (k (p_context pl') r) pl'))"
    by (rule AwaitNext.IH) (rule rangeI)+
  then show ?case using 1 n by simp
qed

lemma next_from_index_mono: "index pl \<le> index (fst (next_from d ms pl))"
proof (induction d arbitrary: pl)
  case 0
  show ?case by simp
next
  case (Suc d)
  show ?case
  proof (cases "index pl < length ms")
    case True
    have "index (pl\<lparr>index := Suc (index pl), ran := ran pl @ [index pl]\<rparr>)
            \<le> index (fst (run_step (next_from d ms) ((ms ! index pl) (p_context pl))
                   (pl\<lparr>index := Suc (index pl), ran := ran pl @ [index pl]\<rparr>)))"
      by (rule run_step_index_mono) (rule Suc.IH)
    then show ?thesis using True by simp
  next
    case False
    then show ?thesis by simp
  qed
qed

lemma run_step_cong_from:
  assumes eq: "\<And>pl. n \<le> index pl \<Longrightarrow> nxt1 pl = nxt2 pl"
    and mono: "\<And>pl. index pl \<le> index (fst (nxt1 pl))"
    and n: "n \<le> index pl"
  shows "run_step nxt1 st pl = run_step nxt2 st pl"
  using n
proof (induction st arbitrary: pl)
  case (Return c)
  show ?case by simp
next
  case (Throw c e)
  show ?case by simp
next
  case (AwaitNext c k)
  obtain pl' r where n1: "nxt1 (pl\<lparr>p_context := c\<rparr>) = (pl', r)"
    by (cases "nxt1 (pl\<lparr>p_context := c\<rparr>)")
  have n2: "nxt2 (pl\<lparr>p_context := c\<rparr>) = (pl', r)"
    using eq [of "pl\<lparr>p_context := c\<rparr>"] AwaitNext.prems n1 by simp
  have "index (pl\<lparr>p_context := c\<rparr>) \<le> index (fst (nxt1 (pl\<lparr>p_context := c\<rparr>)))" by (rule mono)
  then have "n \<le> index pl'" using n1 AwaitNext.prems by simp
  then have "run_step nxt1 (k (p_context pl') r) pl' = run_step nxt2 (k (p_context pl') r) pl'"
    by (rule AwaitNext.IH [OF rangeI rangeI])
  then show ?case using n1 n2 by simp
qed

lemma next_from_depth:
  "length ms - index pl \<le> d \<Longrightarrow> length ms - index pl \<le> d' \<Longrightarrow>
   next_from d ms pl = next_from d' ms pl"
proof (induction d arbitrary: d' pl)
  case 0
  then show ?case by (cases d') simp_all
next
  case (Suc d)
  show ?case
  proof (cases "index pl < length ms")
    case False
    then show ?thesis by (cases d') simp_all
  next
    case True
    then obtain d2 where d': "d' = Suc d2" using Suc.prems(2) by (cases d') simp_all
    let ?pl = "pl\<lparr>index := Suc (index pl), ran := ran pl @ [index pl]\<rparr>"
    have "run_step (next_from d ms) ((ms ! index pl) (p_context pl)) ?pl =
          run_step (next_from d2 ms) ((ms ! index pl) (p_context pl)) ?pl"
    proof (rule run_step_cong_from [where n = "Suc (index pl)"])
      fix q :: pipeline
      assume "Suc (index pl) \<le> index q"
      then have "length ms - index q \<le> d" "length ms - index q \<le> d2"
        using Suc.prems d' by simp_all
      then show "next_from d ms q = next_from d2 ms q" by (rule Suc.IH)
    next
      fix q :: pipeline
      show "index q \<le> index (fst (next_from d ms q))" by (rule next_from_index_mono)
    next
      show "Suc (index pl) \<le> index ?pl" by simp
    qed
    then show ?thesis using True d' by simp
  qed
qed

lemma next_from_unfold:
  assumes "length ms - index pl \<le> d"
  shows "next_from d ms pl =
     (if index pl < length ms
      then run_step (\<lambda>q. next_from (length ms - index q) ms q) ((ms ! index pl) (p_context pl))
             (pl\<lparr>index := Suc (index pl), ran := ran pl @ [index pl]\<rparr>)
      else (pl, None))"
proof (cases "index pl < length ms")
  case False
  then show ?thesis by (cases d) simp_all
next
  case True
  then obtain d2 where d: "d = Suc d2" using assms by (cases d) simp_all
  let ?pl = "pl\<lparr>index := Suc (index pl), ran := ran pl @ [index pl]\<rparr>"
  have "run_step (next_from d2 ms) ((ms ! index pl) (p_context pl)) ?pl =
        run_step (\<lambda>q. next_from (length ms - index q) ms q) ((ms ! index pl) (p_context pl)) ?pl"
  proof (rule run_step_cong_from [where n = "Suc (index pl)"])
    fix q :: pipeline
    assume "Suc (index pl) \<le> index q"
    then have "length ms - index q \<le> d2" using assms d by simp
    then show "next_from d2 ms q = next_from (length ms - index q) ms q"
      by (rule next_from_depth) simp
  next
    fix q :: pipeline
    show "index q \<le> index (fst (next_from d2 ms q))" by (rule next_from_index_mono)
  next
    show "Suc (index pl) \<le> index ?pl" by simp
  qed
  then show ?thesis using True d by simp
qed

lemmas eval_defs =
  fresh_assistant_def new_assistant_def or_default_def use_def ask_def ask_try_def
  executeMiddleware_def initial_context_def truthy_def isInHumanMode_def
  get_or_create_thread_def createThread_def new_Thread_def fresh_thread_data_def getThread_def
  Thread_ask_def begin_ask_def finish_ask_def trim_history_def slice_last_def Let_def pong_env_def
  down_env_def reply_with_def pass_on_def record_time_def history_of_def push_history_def
  saveThread_def callAI_catch_def no_options_def

subsection \<open>Release to the assistant\<close>

lemma history_of_handoffState_update [simp]:
  "history_of (s\<lparr>handoffState := h\<rparr>) a = history_of s a"
  by (simp add: history_of_def)

lemma isInHumanMode_deleted:
  "handoffState s' = map_delete (handoffState s) c \<Longrightarrow> \<not> isInHumanMode s' c"
  by (simp add: isInHumanMode_def delete_conv')

text \<open>
  Claim C4, as the code has it. On a chat in AI mode \<^verbatim>\<open>releaseToAI\<close> returns false
  and the state is the same. On a chat in human mode whose thread is in the working
  set or can be created (\<open>a\<close> is its address and \<open>s1\<close> the state once it is there),
  it returns true, the handoff entry is gone, and the thread is saved to the storage.
  If the summary is not empty, the history gets the system message with the summary
  and the context gets the summary; if it is empty, the history stays as it is and so
  does that entry of the context. If the metadata has an entry, the context gets the
  metadata; if it has none, that entry of the context stays as it is. No other entry
  of the context changes. A second release, with any summary and metadata, returns
  false and leaves the state as it is.
\<close>

theorem releaseToAI_effect:
  "(\<not> isInHumanMode s c \<longrightarrow> releaseToAI ev c summary md s = (Inr False, s)) \<and>
   (isInHumanMode s c \<and> get_or_create_thread ev None c s = (Inr a, s1) \<longrightarrow>
      (\<exists>s'. releaseToAI ev c summary md s = (Inr True, s')
         \<and> map_get (handoffState s') c = None
         \<and> \<not> isInHumanMode s' c
         \<and> history_of s' a =
             history_of s1 a @
               (if summary \<noteq> []
                then [\<lparr>role = ''system'', content = ''Human operator summary: '' @ summary,
                       name = None\<rparr>]
                else [])
         \<and> t_context (thread_heap s' a) =
             (\<lambda>k. if k = ''releaseMetadata'' \<and> md \<noteq> [] then Some (MetadataValue md)
                  else if k = ''humanInteractionSummary'' \<and> summary \<noteq> []
                    then Some (StringValue summary)
                  else t_context (thread_heap s1 a) k)
         \<and> map_get (storage s') (chatId (thread_heap s' a)) =
               Some \<lparr>d_chatId = chatId (thread_heap s' a), d_context = t_context (thread_heap s' a),
                     d_history = history (thread_heap s' a), d_lastUsed = lastUsed (thread_heap s' a)\<rparr>
         \<and> releaseToAI ev c summary2 md2 s' = (Inr False, s')))"
proof (intro conjI impI)
  assume "\<not> isInHumanMode s c"
  then show "releaseToAI ev c summary md s = (Inr False, s)" by (simp add: releaseToAI_def)
next
  assume a: "isInHumanMode s c \<and> get_or_create_thread ev None c s = (Inr a, s1)"
  define s2 where "s2 = s1\<lparr>handoffState := map_delete (handoffState s1) c\<rparr>"
  define s3 where
    "s3 = (if summary \<noteq> []
           then push_history a
                  \<lparr>role = ''system'', content = ''Human operator summary: '' @ summary,
                   name = None\<rparr>
                  (addContext a ''humanInteractionSummary'' (StringValue summary) s2)
           else s2)"
  define s4 where
    "s4 = (if md \<noteq> [] then addContext a ''releaseMetadata'' (MetadataValue md) s3 else s3)"
  define s' where "s' = saveThread a s4"
  have rel: "releaseToAI ev c summary md s = (Inr True, s')"
    using a by (simp add: releaseToAI_def s'_def s4_def s3_def s2_def Let_def)
  have hs: "handoffState s' = map_delete (handoffState s1) c"
    by (simp add: s'_def s4_def s3_def s2_def)
  have nh: "\<not> isInHumanMode s' c" using hs by (rule isInHumanMode_deleted)
  have 1: "map_get (handoffState s') c = None" using hs by (simp add: delete_conv')
  have 2: "history_of s' a =
             history_of s1 a @
               (if summary \<noteq> []
                then [\<lparr>role = ''system'', content = ''Human operator summary: '' @ summary,
                       name = None\<rparr>]
                else [])"
    by (simp add: s'_def s4_def s3_def s2_def)
  have c3: "t_context (thread_heap s3 a) =
             (\<lambda>k. if k = ''humanInteractionSummary'' \<and> summary \<noteq> []
                    then Some (StringValue summary)
                  else t_context (thread_heap s1 a) k)"
    by (rule ext) (simp add: s3_def s2_def)
  have 3: "t_context (thread_heap s' a) =
             (\<lambda>k. if k = ''releaseMetadata'' \<and> md \<noteq> [] then Some (MetadataValue md)
                  else if k = ''humanInteractionSummary'' \<and> summary \<noteq> []
                    then Some (StringValue summary)
                  else t_context (thread_heap s1 a) k)"
    by (rule ext) (simp add: s'_def s4_def c3)
  have 5: "map_get (storage s') (chatId (thread_heap s' a)) =
             Some \<lparr>d_chatId = chatId (thread_heap s' a), d_context = t_context (thread_heap s' a),
                   d_history = history (thread_heap s' a), d_lastUsed = lastUsed (thread_heap s' a)\<rparr>"
    by (simp add: s'_def saveThread_storage update_conv')
  have 6: "releaseToAI ev c summary2 md2 s' = (Inr False, s')"
    using nh by (simp add: releaseToAI_def)
  from rel 1 nh 2 3 5 6
  show "\<exists>s'. releaseToAI ev c summary md s = (Inr True, s')
         \<and> map_get (handoffState s') c = None
         \<and> \<not> isInHumanMode s' c
         \<and> history_of s' a =
             history_of s1 a @
               (if summary \<noteq> []
                then [\<lparr>role = ''system'', content = ''Human operator summary: '' @ summary,
                       name = None\<rparr>]
                else [])
         \<and> t_context (thread_heap s' a) =
             (\<lambda>k. if k = ''releaseMetadata'' \<and> md \<noteq> [] then Some (MetadataValue md)
                  else if k = ''humanInteractionSummary'' \<and> summary \<noteq> []
                    then Some (StringValue summary)
                  else t_context (thread_heap s1 a) k)
         \<and> map_get (storage s') (chatId (thread_heap s' a)) =
               Some \<lparr>d_chatId = chatId (thread_heap s' a), d_context = t_context (thread_heap s' a),
                     d_history = history (thread_heap s' a), d_lastUsed = lastUsed (thread_heap s' a)\<rparr>
         \<and> releaseToAI ev c summary2 md2 s' = (Inr False, s')"
    by blast
qed

lemma alice_thread:
  "get_or_create_thread pong_env None ''alice'' alice_with_human = (Inr 0, alice_with_human)"
  by (simp add: alice_with_human_def handoffToHuman_def addContext_def eval_defs)

lemma alice_history: "history_of alice_with_human 0 = []"
  by (simp add: alice_with_human_def handoffToHuman_def addContext_def eval_defs)

lemma fresh_not_human: "\<not> isInHumanMode fresh_assistant c"
  by (simp add: isInHumanMode_def fresh_assistant_def new_assistant_def)

lemma alice_context:
  "t_context (thread_heap alice_with_human 0) =
     [''handoffState'' \<mapsto>
        HandoffValue \<lparr>isHumanMode = True, handoffTime = 0, reason = ''billing'', metadata = [],
                      threadId = ''alice''\<rparr>]"
  by (simp add: alice_with_human_def handoffToHuman_def addContext_def eval_defs)

text \<open>
  An instance of each case: a release on a fresh assistant; the release of \<^verbatim>\<open>alice\<close>
  with a summary and one entry of metadata, followed by a second release; and the
  release of \<^verbatim>\<open>alice\<close> with the empty summary and no metadata, which leaves her
  history empty and her context with the handoff state alone.
\<close>

theorem releaseToAI_effect_witness:
  "\<not> isInHumanMode fresh_assistant ''alice''
   \<and> releaseToAI pong_env ''alice'' ''Refund given'' [] fresh_assistant = (Inr False, fresh_assistant)
   \<and> isInHumanMode alice_with_human ''alice''
   \<and> get_or_create_thread pong_env None ''alice'' alice_with_human = (Inr 0, alice_with_human)
   \<and> (\<exists>s'. releaseToAI pong_env ''alice'' ''Refund given'' [(''agent'', MStr ''dana'')]
               alice_with_human = (Inr True, s')
        \<and> \<not> isInHumanMode s' ''alice''
        \<and> history_of s' 0 =
            [\<lparr>role = ''system'', content = ''Human operator summary: Refund given'', name = None\<rparr>]
        \<and> t_context (thread_heap s' 0) =
            [''handoffState'' \<mapsto>
               HandoffValue \<lparr>isHumanMode = True, handoffTime = 0, reason = ''billing'',
                             metadata = [], threadId = ''alice''\<rparr>,
             ''humanInteractionSummary'' \<mapsto> StringValue ''Refund given'',
             ''releaseMetadata'' \<mapsto> MetadataValue [(''agent'', MStr ''dana'')]]
        \<and> releaseToAI pong_env ''alice'' ''Refund given'' [] s' = (Inr False, s'))
   \<and> (\<exists>s'. releaseToAI pong_env ''alice'' [] [] alice_with_human = (Inr True, s')
        \<and> \<not> isInHumanMode s' ''alice''
        \<and> history_of s' 0 = []
        \<and> t_context (thread_heap s' 0) =
            [''handoffState'' \<mapsto>
               HandoffValue \<lparr>isHumanMode = True, handoffTime = 0, reason = ''billing'',
                             metadata = [], threadId = ''alice''\<rparr>])"
proof -
  have a: "\<not> isInHumanMode fresh_assistant ''alice''" by (rule fresh_not_human)
  have b: "isInHumanMode alice_with_human ''alice''
             \<and> get_or_create_thread pong_env None ''alice'' alice_with_human = (Inr 0, alice_with_human)"
    using alice_in_human_mode alice_thread by simp
  from releaseToAI_effect
         [of fresh_assistant "''alice''" pong_env "''Refund given''" "[]"]
       a
  have 1: "releaseToAI pong_env ''alice'' ''Refund given'' [] fresh_assistant
             = (Inr False, fresh_assistant)"
    by blast
  from releaseToAI_effect
         [of alice_with_human "''alice''" pong_env "''Refund given''" "[(''agent'', MStr ''dana'')]"
             0 alice_with_human "''Refund given''" "[]"]
       b
  obtain s' where 2:
    "releaseToAI pong_env ''alice'' ''Refund given'' [(''agent'', MStr ''dana'')] alice_with_human
       = (Inr True, s')"
    "\<not> isInHumanMode s' ''alice''"
    "history_of s' 0 =
       history_of alice_with_human 0 @
         [\<lparr>role = ''system'', content = ''Human operator summary: Refund given'', name = None\<rparr>]"
    "t_context (thread_heap s' 0) =
       (\<lambda>k. if k = ''releaseMetadata'' \<and> [(''agent'', MStr ''dana'')] \<noteq> []
              then Some (MetadataValue [(''agent'', MStr ''dana'')])
            else if k = ''humanInteractionSummary'' \<and> ''Refund given'' \<noteq> []
              then Some (StringValue ''Refund given'')
            else t_context (thread_heap alice_with_human 0) k)"
    "releaseToAI pong_env ''alice'' ''Refund given'' [] s' = (Inr False, s')"
    by auto
  have 3: "t_context (thread_heap s' 0) =
            [''handoffState'' \<mapsto>
               HandoffValue \<lparr>isHumanMode = True, handoffTime = 0, reason = ''billing'',
                             metadata = [], threadId = ''alice''\<rparr>,
             ''humanInteractionSummary'' \<mapsto> StringValue ''Refund given'',
             ''releaseMetadata'' \<mapsto> MetadataValue [(''agent'', MStr ''dana'')]]"
    unfolding 2(4) alice_context by (rule ext) simp
  from releaseToAI_effect
         [of alice_with_human "''alice''" pong_env "[]" "[]" 0 alice_with_human "[]" "[]"]
       b
  obtain s'' where 4:
    "releaseToAI pong_env ''alice'' [] [] alice_with_human = (Inr True, s'')"
    "\<not> isInHumanMode s'' ''alice''"
    "history_of s'' 0 = history_of alice_with_human 0 @ []"
    "t_context (thread_heap s'' 0) =
       (\<lambda>k. if k = ''releaseMetadata'' \<and> ([] :: metadata) \<noteq> [] then Some (MetadataValue [])
            else if k = ''humanInteractionSummary'' \<and> ([] :: string) \<noteq> []
              then Some (StringValue [])
            else t_context (thread_heap alice_with_human 0) k)"
    by auto
  have 5: "t_context (thread_heap s'' 0) =
            [''handoffState'' \<mapsto>
               HandoffValue \<lparr>isHumanMode = True, handoffTime = 0, reason = ''billing'',
                             metadata = [], threadId = ''alice''\<rparr>]"
    unfolding 4(4) alice_context by (rule ext) simp
  from a b 1 2(1,2,3,5) 3 4(1,2,3) 5 show ?thesis by (simp add: alice_history)
qed

text \<open>
  Claim C4 as stated fails for the default arguments. \<^verbatim>\<open>alice\<close> is in human mode and
  is released with an empty summary and no metadata: the call returns true, but no
  message is appended to the history of her thread (it stays empty) and neither a
  summary nor metadata is stored in the thread context.
\<close>

theorem release_without_summary_counterexample:
  "isInHumanMode alice_with_human ''alice''
   \<and> (case releaseToAI pong_env ''alice'' [] [] alice_with_human of
         (r, s') \<Rightarrow> r = Inr True \<and> map_get (threads s') ''alice'' = Some 0 \<and> history_of s' 0 = []
            \<and> t_context (thread_heap s' 0) ''humanInteractionSummary'' = None
            \<and> t_context (thread_heap s' 0) ''releaseMetadata'' = None)"
  by (simp add: alice_with_human_def handoffToHuman_def releaseToAI_def addContext_def eval_defs)

subsection \<open>Errors at the dispatcher\<close>

lemma handoffToHuman_success:
  assumes "get_or_create_thread ev None c s = (Inr a, s1)"
  shows "\<exists>s'. handoffToHuman ev c rsn md s = (Inr True, s') \<and>
           handoffState s' = map_set (handoffState s1) c
              \<lparr>isHumanMode = True, handoffTime = now s1, reason = rsn, metadata = md,
               threadId = chatId (thread_heap s1 a)\<rparr>"
  using assms by (simp add: handoffToHuman_def Let_def)

text \<open>
  Claim C8, as the code has it. The chat is in AI mode, the message carries no handoff
  tag, and the \<^verbatim>\<open>try\<close> block of \<^verbatim>\<open>processMessage\<close> throws \<open>e\<close>. Without
  \<^verbatim>\<open>handoffOnError\<close> the error is thrown on to the caller. With \<^verbatim>\<open>handoffOnError\<close>, and
  if the thread of the chat is in the working set or can be created, the result has
  type \<^verbatim>\<open>handoff\<close>, carries the apology and the message of \<open>e\<close>, and the chat is in
  human mode with the handoff state returned, whose reason is the string
  \<^verbatim>\<open>AI processing error\<close>.
\<close>

theorem processMessage_error_path:
  assumes "\<not> isInHumanMode s c" and "\<not> has_handoff_tag msg"
      and "process_try fuel ev c msg opts s = Some (Inl e, s1)"
  shows "(\<not> handoffOnError opts \<longrightarrow> processMessage fuel ev c msg opts s = Some (Inl e, s1)) \<and>
         (handoffOnError opts \<and> get_or_create_thread ev None c s1 = (Inr a, s2) \<longrightarrow>
            (\<exists>s' hs. processMessage fuel ev c msg opts s =
                        Some (Inr (HandoffResult apology_message (Some hs) (Some (message e))), s')
               \<and> result_type (HandoffResult apology_message (Some hs) (Some (message e))) = ''handoff''
               \<and> map_get (handoffState s') c = Some hs
               \<and> isInHumanMode s' c
               \<and> hs = \<lparr>isHumanMode = True, handoffTime = now s2, reason = ''AI processing error'',
                       metadata = [(''error'', MStr (message e)), (''triggerMessage'', MStr msg),
                                   (''automatic'', MBool True)],
                       threadId = chatId (thread_heap s2 a)\<rparr>))"
proof (intro conjI impI)
  assume "\<not> handoffOnError opts"
  then show "processMessage fuel ev c msg opts s = Some (Inl e, s1)"
    using assms by (simp add: processMessage_def process_catch_def)
next
  assume h: "handoffOnError opts \<and> get_or_create_thread ev None c s1 = (Inr a, s2)"
  let ?md = "[(''error'', MStr (message e)), (''triggerMessage'', MStr msg),
              (''automatic'', MBool True)]"
  let ?hs = "\<lparr>isHumanMode = True, handoffTime = now s2, reason = ''AI processing error'',
               metadata = ?md, threadId = chatId (thread_heap s2 a)\<rparr>"
  from h obtain s' where
    ho: "handoffToHuman ev c ''AI processing error'' ?md s1 = (Inr True, s')" and
    hm: "handoffState s' = map_set (handoffState s2) c ?hs"
    using handoffToHuman_success [of ev c s1 a s2 "''AI processing error''" ?md] by blast
  have get: "map_get (handoffState s') c = Some ?hs" using hm by (simp add: update_conv')
  have pm: "processMessage fuel ev c msg opts s =
              Some (Inr (HandoffResult apology_message (Some ?hs) (Some (message e))), s')"
    using assms h ho get by (simp add: processMessage_def process_catch_def)
  have hmode: "isInHumanMode s' c" using get by (simp add: isInHumanMode_def)
  show "\<exists>s' hs. processMessage fuel ev c msg opts s =
                        Some (Inr (HandoffResult apology_message (Some hs) (Some (message e))), s')
               \<and> result_type (HandoffResult apology_message (Some hs) (Some (message e))) = ''handoff''
               \<and> map_get (handoffState s') c = Some hs
               \<and> isInHumanMode s' c
               \<and> hs = ?hs"
    using pm get hmode by (auto simp: result_type_def)
qed

lemma hello_no_tag: "\<not> has_handoff_tag ''hello''"
  by (simp add: has_handoff_tag_def toLowerCase_def lower_char_def)

lemma dave_try:
  "\<exists>s1. process_try (Suc 0) down_env ''dave'' ''hello'' (no_options\<lparr>handoffOnError := b\<rparr>) fresh_assistant
           = Some (Inl (Error ''backend down''), s1)
        \<and> get_or_create_thread down_env None ''dave'' s1 = (Inr 0, s1)"
  by (simp add: process_try_def eval_defs)

text \<open>
  An instance of each half, with a backend that rejects every call: without
  \<^verbatim>\<open>handoffOnError\<close> the error reaches the caller, with it the chat is handed over.
\<close>

theorem processMessage_error_path_witness:
  "\<not> isInHumanMode fresh_assistant ''dave'' \<and> \<not> has_handoff_tag ''hello''
   \<and> (\<exists>s1. process_try (Suc 0) down_env ''dave'' ''hello'' (no_options\<lparr>handoffOnError := False\<rparr>)
              fresh_assistant = Some (Inl (Error ''backend down''), s1)
         \<and> processMessage (Suc 0) down_env ''dave'' ''hello'' (no_options\<lparr>handoffOnError := False\<rparr>)
              fresh_assistant = Some (Inl (Error ''backend down''), s1))
   \<and> (\<exists>s1 s' hs.
         process_try (Suc 0) down_env ''dave'' ''hello'' (no_options\<lparr>handoffOnError := True\<rparr>)
           fresh_assistant = Some (Inl (Error ''backend down''), s1)
         \<and> get_or_create_thread down_env None ''dave'' s1 = (Inr 0, s1)
         \<and> processMessage (Suc 0) down_env ''dave'' ''hello'' (no_options\<lparr>handoffOnError := True\<rparr>)
             fresh_assistant
             = Some (Inr (HandoffResult apology_message (Some hs) (Some ''backend down'')), s')
         \<and> isInHumanMode s' ''dave''
         \<and> reason hs = ''AI processing error'')"
proof -
  have a: "\<not> isInHumanMode fresh_assistant ''dave''" by (rule fresh_not_human)
  have b: "\<not> has_handoff_tag ''hello''" by (rule hello_no_tag)
  obtain s1 where 1:
    "process_try (Suc 0) down_env ''dave'' ''hello'' (no_options\<lparr>handoffOnError := False\<rparr>)
       fresh_assistant = Some (Inl (Error ''backend down''), s1)"
    using dave_try [of False] by blast
  from processMessage_error_path [OF a b 1]
  have 2: "processMessage (Suc 0) down_env ''dave'' ''hello'' (no_options\<lparr>handoffOnError := False\<rparr>)
             fresh_assistant = Some (Inl (Error ''backend down''), s1)"
    by simp
  obtain t1 where 3:
    "process_try (Suc 0) down_env ''dave'' ''hello'' (no_options\<lparr>handoffOnError := True\<rparr>)
       fresh_assistant = Some (Inl (Error ''backend down''), t1)"
    "get_or_create_thread down_env None ''dave'' t1 = (Inr 0, t1)"
    using dave_try [of True] by blast
  from processMessage_error_path [OF a b 3(1), of 0 t1] 3(2)
  obtain s' hs where 4:
    "processMessage (Suc 0) down_env ''dave'' ''hello'' (no_options\<lparr>handoffOnError := True\<rparr>)
       fresh_assistant
       = Some (Inr (HandoffResult apology_message (Some hs) (Some ''backend down'')), s')"
    "isInHumanMode s' ''dave''" "reason hs = ''AI processing error''"
    by auto
  from a b 1 2 3 4 show ?thesis by blast
qed

text \<open>
  Claim C8 as stated fails on the reason. With a backend that rejects every call and
  \<^verbatim>\<open>handoffOnError\<close> set, the result has type \<^verbatim>\<open>handoff\<close> and the reason recorded for
  the chat is \<^verbatim>\<open>AI processing error\<close>, not \<^verbatim>\<open>processing error\<close>.
\<close>

theorem handoff_reason_counterexample:
  "(case processMessage (Suc 0) down_env ''dave'' ''hello'' (no_options\<lparr>handoffOnError := True\<rparr>)
           fresh_assistant of
      Some (Inr r, s') \<Rightarrow>
        result_type r = ''handoff''
        \<and> map_option reason (map_get (handoffState s') ''dave'') = Some ''AI processing error''
        \<and> map_option reason (map_get (handoffState s') ''dave'') \<noteq> Some ''processing error''
    | _ \<Rightarrow> False)"
  by (simp add: processMessage_def process_try_def process_catch_def has_handoff_tag_def
        toLowerCase_def lower_char_def handoffToHuman_def addContext_def result_type_def eval_defs)

subsection \<open>What the operations do to the handoff map\<close>

lemma callAI_cases:
  assumes "callAI (Suc n) ev sys msgs opts s = Some res"
  obtains (caught) e where
      "res = callAI_catch ev sys msgs opts e (s\<lparr>backend_calls := Suc (backend_calls s)\<rparr>)"
    | (answered) answer where "res = (Inr answer, s\<lparr>backend_calls := Suc (backend_calls s)\<rparr>)"
    | (again) msgs' where
      "callAI n ev sys msgs' opts (s\<lparr>backend_calls := Suc (backend_calls s)\<rparr>) = Some res"
proof -
  let ?s = "s\<lparr>backend_calls := Suc (backend_calls s)\<rparr>"
  let ?g = "generateResponse ev (provider s) (backend_calls s) sys msgs opts
              (if functionsMap s \<noteq> [] then Some (map fst (functionsMap s)) else None)"
  show thesis
  proof (cases ?g)
    case (Inl e)
    with assms have "res = callAI_catch ev sys msgs opts e ?s" by (simp add: Let_def)
    then show thesis by (rule caught)
  next
    case (Inr resp)
    note g = this
    show thesis
    proof (cases "r_function_call resp")
      case None
      with g assms have "res = (Inr (r_content resp), ?s)" by (simp add: Let_def)
      then show thesis by (rule answered)
    next
      case (Some fc)
      note f = this
      show thesis
      proof (cases "handleFunctionCall ev fc ?s")
        case (Inl e)
        with g f assms have "res = callAI_catch ev sys msgs opts e ?s" by (simp add: Let_def)
        then show thesis by (rule caught)
      next
        case (Inr result)
        with g f assms
        have "callAI n ev sys
                (msgs @ [\<lparr>role = ''assistant'', content = r_content resp, name = None\<rparr>,
                         \<lparr>role = ''function'', content = result, name = Some (fc_name fc)\<rparr>])
                opts ?s = Some res"
          by (simp add: Let_def)
        then show thesis by (rule again)
      qed
    qed
  qed
qed

lemma callAI_catch_snd:
  "snd (callAI_catch ev sys msgs opts e s) =
     s\<lparr>backend_calls := backend_calls (snd (callAI_catch ev sys msgs opts e s))\<rparr>"
  by (simp add: callAI_catch_def split: option.splits sum.splits)

lemma callAI_catch_state:
  assumes "callAI_catch ev sys msgs opts e s = (r, s')"
  shows "\<exists>n. s' = s\<lparr>backend_calls := n\<rparr>"
proof -
  from assms callAI_catch_snd [of ev sys msgs opts e s]
  have "s' = s\<lparr>backend_calls := backend_calls s'\<rparr>" by simp
  then show ?thesis by (rule exI)
qed

lemma callAI_state:
  "callAI fuel ev sys msgs opts s = Some (r, s') \<Longrightarrow> \<exists>n. s' = s\<lparr>backend_calls := n\<rparr>"
proof (induction fuel arbitrary: msgs s)
  case 0
  then show ?case by simp
next
  case (Suc fuel)
  let ?s = "s\<lparr>backend_calls := Suc (backend_calls s)\<rparr>"
  have "\<exists>n. s' = ?s\<lparr>backend_calls := n\<rparr>"
    using Suc.prems
  proof (cases rule: callAI_cases)
    case (caught e)
    then have "callAI_catch ev sys msgs opts e ?s = (r, s')" by simp
    then show ?thesis by (rule callAI_catch_state)
  next
    case (answered answer)
    then have "s' = ?s\<lparr>backend_calls := Suc (backend_calls s)\<rparr>" by simp
    then show ?thesis by (rule exI)
  next
    case (again msgs')
    then show ?thesis by (rule Suc.IH)
  qed
  then obtain n where "s' = ?s\<lparr>backend_calls := n\<rparr>" ..
  then have "s' = s\<lparr>backend_calls := n\<rparr>" by simp
  then show ?case by (rule exI)
qed

lemma begin_ask_handoffState [simp]: "handoffState (begin_ask a p s) = handoffState s"
  by (simp add: begin_ask_def)

lemma trim_history_handoffState [simp]: "handoffState (trim_history a s) = handoffState s"
  by (simp add: trim_history_def Let_def)

lemma finish_ask_handoffState [simp]: "handoffState (finish_ask a r s) = handoffState s"
  by (simp add: finish_ask_def)

lemma Thread_ask_cases:
  assumes "Thread_ask fuel ev a p opts s = Some (r, s')"
  obtains (throws) e n where "r = Inl e" "s' = (begin_ask a p s)\<lparr>backend_calls := n\<rparr>"
    | (returns) x n where
        "r = Inr x" "s' = finish_ask a x ((begin_ask a p s)\<lparr>backend_calls := n\<rparr>)"
proof -
  let ?c = "callAI fuel ev (t_context (thread_heap (begin_ask a p s) a))
              (history_of (begin_ask a p s) a) opts (begin_ask a p s)"
  show thesis
  proof (cases ?c)
    case None
    with assms show thesis by (simp add: Thread_ask_def)
  next
    case (Some res)
    obtain r3 s3 where res: "res = (r3, s3)" by (cases res)
    from callAI_state [of fuel ev _ _ opts "begin_ask a p s" r3 s3] Some res
    obtain n where s3: "s3 = (begin_ask a p s)\<lparr>backend_calls := n\<rparr>" by blast
    show thesis
    proof (cases r3)
      case (Inl e)
      with assms Some res have "r = Inl e" "s' = s3" by (simp_all add: Thread_ask_def)
      with s3 show thesis by (intro throws) simp_all
    next
      case (Inr x)
      with assms Some res have "r = Inr x" "s' = finish_ask a x s3" by (simp_all add: Thread_ask_def)
      with s3 show thesis by (intro returns) simp_all
    qed
  qed
qed

lemma Thread_ask_handoffState:
  assumes "Thread_ask fuel ev a p opts s = Some (r, s')"
  shows "handoffState s' = handoffState s"
  using assms by (cases rule: Thread_ask_cases) simp_all

lemma cleanup_loop_handoffState:
  "handoffState (snd (cleanup_loop es s)) = handoffState s"
  by (induction es arbitrary: s) simp_all

lemma getThread_handoffState: "handoffState (snd (getThread c s)) = handoffState s"
  by (simp add: getThread_def split: option.splits)

lemma new_Thread_handoffState: "handoffState (snd (new_Thread ev c d s)) = handoffState s"
  by (simp add: new_Thread_def)

lemma fresh_thread_data_handoffState:
  "handoffState (snd (fresh_thread_data c s)) = handoffState s"
  by (simp add: fresh_thread_data_def)

lemma createThread_handoffState:
  "handoffState (snd (createThread ev c s)) = handoffState s"
proof -
  obtain r1 s1 where 1:
    "(if int (length (threads s)) \<ge> maxThreads s then cleanupOldThreads s else (Inr (), s)) = (r1, s1)"
    by (cases "if int (length (threads s)) \<ge> maxThreads s then cleanupOldThreads s else (Inr (), s)")
  have "handoffState (snd (if int (length (threads s)) \<ge> maxThreads s then cleanupOldThreads s else (Inr (), s))) = handoffState s"
    by (simp add: cleanupOldThreads_def cleanup_loop_handoffState)
  with 1 have h1: "handoffState s1 = handoffState s" by simp
  obtain l s2 where 2: "getThread c s1 = (l, s2)" by (cases "getThread c s1")
  then have h2: "handoffState s2 = handoffState s" using getThread_handoffState [of c s1] h1 by simp
  obtain d s3 where 3: "(case l of Some d \<Rightarrow> (d, s2) | None \<Rightarrow> fresh_thread_data c s2) = (d, s3)"
    by (cases "case l of Some d \<Rightarrow> (d, s2) | None \<Rightarrow> fresh_thread_data c s2")
  then have h3: "handoffState s3 = handoffState s"
    using h2 fresh_thread_data_handoffState [of c s2] by (cases l) auto
  obtain r4 s4 where 4: "new_Thread ev c d s3 = (r4, s4)" by (cases "new_Thread ev c d s3")
  then have h4: "handoffState s4 = handoffState s" using new_Thread_handoffState [of ev c d s3] h3 by simp
  show ?thesis
    using 1 2 3 4 h1 h4
    by (cases r1; cases r4) (simp_all add: createThread_def)
qed

lemma get_or_create_thread_handoffState:
  "handoffState (snd (get_or_create_thread ev g c s)) = handoffState s"
  by (simp add: get_or_create_thread_def createThread_handoffState split: option.splits)

lemma ask_try_handoffState:
  assumes "ask_try fuel ev c p opts s = Some (r, s')"
  shows "handoffState s' = handoffState s"
proof -
  obtain pl e where ex: "executeMiddleware (middleware s) (initial_context c p opts) = (pl, e)"
    by (cases "executeMiddleware (middleware s) (initial_context c p opts)")
  show ?thesis
  proof (cases e)
    case (Some err)
    with assms ex show ?thesis by (simp add: ask_try_def)
  next
    case None
    note e = this
    show ?thesis
    proof (cases "if truthy (response (p_context pl)) then response (p_context pl) else None")
      case (Some x)
      with assms ex e show ?thesis by (simp add: ask_try_def)
    next
      case None
      note resp = this
      obtain rt s1 where g: "get_or_create_thread ev (c_thread (p_context pl)) c s = (rt, s1)"
        by (cases "get_or_create_thread ev (c_thread (p_context pl)) c s")
      then have h1: "handoffState s1 = handoffState s"
        using get_or_create_thread_handoffState [of ev "c_thread (p_context pl)" c s] by simp
      show ?thesis
      proof (cases rt)
        case (Inl err)
        with assms ex e resp g h1 show ?thesis by (simp add: ask_try_def)
      next
        case (Inr a)
        note rt = this
        show ?thesis
        proof (cases "Thread_ask fuel ev a p opts s1")
          case None
          with assms ex e resp g rt show ?thesis by (simp add: ask_try_def)
        next
          case (Some res)
          obtain r2 s2 where res: "res = (r2, s2)" by (cases res)
          from Some res have "handoffState s2 = handoffState s1"
            using Thread_ask_handoffState by simp
          with assms ex e resp g rt Some res h1 show ?thesis
            by (cases r2) (auto simp: ask_try_def record_time_def Let_def)
        qed
      qed
    qed
  qed
qed

lemma ask_handoffState:
  assumes "ask fuel ev c p opts s = Some (r, s')"
  shows "handoffState s' = handoffState s"
proof (cases "isInHumanMode s c \<and> \<not> ignoreHandoffState opts")
  case True
  with assms show ?thesis by (simp add: ask_def)
next
  case False
  let ?s0 = "s\<lparr>stats_requests := Suc (stats_requests s)\<rparr>"
  show ?thesis
  proof (cases "ask_try fuel ev c p opts ?s0")
    case None
    with assms False show ?thesis by (simp add: ask_def)
  next
    case (Some res)
    obtain r1 s1 where res: "res = (r1, s1)" by (cases res)
    from Some res have "handoffState s1 = handoffState ?s0" using ask_try_handoffState by simp
    with assms False Some res show ?thesis
      by (cases r1) (auto simp: ask_def split: option.splits)
  qed
qed

lemma handoffToHuman_handoffState:
  assumes "handoffToHuman ev c rsn md s = (r, s')"
  shows "handoffState s' = handoffState s \<or>
         (\<exists>h. isHumanMode h \<and> handoffState s' = map_set (handoffState s) c h)"
proof -
  obtain rt s1 where g: "get_or_create_thread ev None c s = (rt, s1)"
    by (cases "get_or_create_thread ev None c s")
  then have h1: "handoffState s1 = handoffState s"
    using get_or_create_thread_handoffState [of ev None c s] by simp
  show ?thesis
  proof (cases rt)
    case (Inl e)
    with assms g h1 show ?thesis by (simp add: handoffToHuman_def)
  next
    case (Inr a)
    let ?h = "\<lparr>isHumanMode = True, handoffTime = now s1, reason = rsn, metadata = md,
               threadId = chatId (thread_heap s1 a)\<rparr>"
    from Inr assms g h1 have "handoffState s' = map_set (handoffState s) c ?h"
      by (auto simp: handoffToHuman_def Let_def)
    moreover have "isHumanMode ?h" by simp
    ultimately show ?thesis by blast
  qed
qed

lemma releaseToAI_handoffState:
  assumes "releaseToAI ev c summary md s = (r, s')"
  shows "handoffState s' = handoffState s \<or> handoffState s' = map_delete (handoffState s) c"
proof (cases "isInHumanMode s c")
  case False
  with assms show ?thesis by (simp add: releaseToAI_def)
next
  case True
  obtain rt s1 where g: "get_or_create_thread ev None c s = (rt, s1)"
    by (cases "get_or_create_thread ev None c s")
  then have h1: "handoffState s1 = handoffState s"
    using get_or_create_thread_handoffState [of ev None c s] by simp
  show ?thesis
  proof (cases rt)
    case (Inl e)
    with assms True g h1 show ?thesis by (simp add: releaseToAI_def)
  next
    case (Inr a)
    with assms True g h1 show ?thesis by (auto simp: releaseToAI_def Let_def)
  qed
qed

lemma process_try_handoffState:
  assumes "process_try fuel ev c msg opts s = Some (r, s')"
  shows "handoffState s' = handoffState s \<or>
         (\<exists>h. isHumanMode h \<and> handoffState s' = map_set (handoffState s) c h)"
proof (cases "ask fuel ev c msg opts s")
  case None
  with assms show ?thesis by (simp add: process_try_def)
next
  case (Some res)
  obtain r1 s1 where res: "res = (r1, s1)" by (cases res)
  from Some res have h1: "handoffState s1 = handoffState s" using ask_handoffState by simp
  show ?thesis
  proof (cases r1)
    case (Inl e)
    with assms Some res h1 show ?thesis by (simp add: process_try_def)
  next
    case (Inr x)
    note r1 = this
    show ?thesis
    proof (cases "str_includes (toLowerCase x) ''[handoff]''
                    \<or> str_includes (toLowerCase x) ''[human needed]''")
      case False
      with assms Some res r1 h1 show ?thesis by (simp add: process_try_def)
    next
      case True
      let ?h = "handoffToHuman ev c
                  (case ai_reason x of Some g \<Rightarrow> g | None \<Rightarrow> ''AI requested human assistance'')
                  [(''triggerMessage'', MStr msg), (''aiResponse'', MStr (trim (strip_tags x))),
                   (''automatic'', MBool True)] s1"
      obtain r2 s2 where h: "?h = (r2, s2)" by (cases ?h)
      from handoffToHuman_handoffState [OF h] h1
      have "handoffState s2 = handoffState s \<or>
            (\<exists>h. isHumanMode h \<and> handoffState s2 = map_set (handoffState s) c h)" by simp
      moreover from assms Some res r1 True h have "s' = s2"
        by (cases r2) (simp_all add: process_try_def Let_def)
      ultimately show ?thesis by simp
    qed
  qed
qed

lemma process_catch_handoffState:
  assumes "process_catch ev c msg opts e s = (r, s')"
  shows "handoffState s' = handoffState s \<or>
         (\<exists>h. isHumanMode h \<and> handoffState s' = map_set (handoffState s) c h)"
proof (cases "handoffOnError opts")
  case False
  with assms show ?thesis by (simp add: process_catch_def)
next
  case True
  let ?h = "handoffToHuman ev c ''AI processing error''
              [(''error'', MStr (message e)), (''triggerMessage'', MStr msg),
               (''automatic'', MBool True)] s"
  obtain r2 s2 where h: "?h = (r2, s2)" by (cases ?h)
  from assms True h have "s' = s2" by (cases r2) (simp_all add: process_catch_def)
  with handoffToHuman_handoffState [OF h] show ?thesis by simp
qed

lemma trunc_ext: "handoff_state.truncate (handoff_state.extend h \<lparr>hm_chatId = c\<rparr>) = h"
  by (simp add: handoff_state.truncate_def handoff_state.extend_def)

lemma hm_ext: "hm_chatId (handoff_state.extend h \<lparr>hm_chatId = c\<rparr>) = c"
  by (simp add: handoff_state.extend_def)

lemma processMessage_handoffState:
  assumes "processMessage fuel ev c msg opts s = Some (r, s')"
  shows "handoffState s' = handoffState s \<or>
         (\<exists>h. isHumanMode h \<and> handoffState s' = map_set (handoffState s) c h)"
proof (cases "isInHumanMode s c")
  case True
  with assms show ?thesis by (simp add: processMessage_def)
next
  case False
  note nh = this
  show ?thesis
  proof (cases "has_handoff_tag msg")
    case True
    let ?h = "handoffToHuman ev c
                (case user_reason msg of Some r \<Rightarrow> r | None \<Rightarrow> ''User requested human assistance'')
                [(''triggerMessage'', MStr msg), (''automatic'', MBool False)] s"
    obtain r2 s2 where h: "?h = (r2, s2)" by (cases ?h)
    from assms nh True h have "s' = s2" by (cases r2) (simp_all add: processMessage_def)
    with handoffToHuman_handoffState [OF h] show ?thesis by simp
  next
    case False
    show ?thesis
    proof (cases "process_try fuel ev c msg opts s")
      case None
      with assms nh False show ?thesis by (simp add: processMessage_def)
    next
      case (Some res)
      obtain r1 s1 where res: "res = (r1, s1)" by (cases res)
      from Some res have t: "process_try fuel ev c msg opts s = Some (r1, s1)" by simp
      note h1 = process_try_handoffState [OF t]
      show ?thesis
      proof (cases r1)
        case (Inr x)
        with assms nh False t have "s' = s1" by (simp add: processMessage_def)
        with h1 show ?thesis by simp
      next
        case (Inl e)
        with assms nh False t have pc: "process_catch ev c msg opts e s1 = (r, s')"
          by (simp add: processMessage_def)
        note h2 = process_catch_handoffState [OF pc]
        from h1 h2 show ?thesis
          by (elim disjE exE conjE) auto
      qed
    qed
  qed
qed

lemma set_map_set: "e \<in> set (map_set al k v) \<Longrightarrow> e = (k, v) \<or> e \<in> set al"
  by (induction al) (auto split: if_splits)

lemma handoff_inv_set:
  assumes "handoff_inv s" "isHumanMode h" "handoffState s' = map_set (handoffState s) c h"
  shows "handoff_inv s'"
  using assms
  by (auto simp: handoff_inv_def distinct_update dest!: set_map_set)

lemma set_map_delete: "e \<in> set (map_delete al k) \<Longrightarrow> e \<in> set al"
  by (induction al) (auto split: if_splits)

lemma handoff_inv_delete:
  assumes "handoff_inv s" "handoffState s' = map_delete (handoffState s) c"
  shows "handoff_inv s'"
  using assms
  by (auto simp: handoff_inv_def distinct_delete dest!: set_map_delete)

lemma handoff_inv_same:
  "handoff_inv s \<Longrightarrow> handoffState s' = handoffState s \<Longrightarrow> handoff_inv s'"
  by (simp add: handoff_inv_def)

lemma reachable_handoff_inv:
  assumes "reachable ev s"
  shows "handoff_inv s"
  using assms
proof (induction rule: reachable.induct)
  case (r_new opts t)
  show ?case by (simp add: handoff_inv_def new_assistant_def)
next
  case (r_clock s t)
  then show ?case by (simp add: handoff_inv_def)
next
  case (r_use s m)
  then show ?case by (simp add: handoff_inv_def use_def)
next
  case (r_registerFunctions s fs)
  then show ?case by (simp add: handoff_inv_def registerFunctions_def)
next
  case (r_registerHumanHandlers s h)
  then show ?case by (simp add: handoff_inv_def registerHumanHandlers_def)
next
  case (r_createThread s c r s')
  then show ?case using createThread_handoffState [of ev c s] by (simp add: handoff_inv_def)
next
  case (r_saveThread s a)
  then show ?case by (simp add: handoff_inv_def)
next
  case (r_addContext s a k v)
  then show ?case by (simp add: handoff_inv_def)
next
  case (r_Thread_ask s fuel a p opts r1 s')
  then show ?case using Thread_ask_handoffState handoff_inv_same by blast
next
  case (r_ask s fuel c p opts r1 s')
  then show ?case using ask_handoffState handoff_inv_same by blast
next
  case (r_handoffToHuman s c rsn md r2 s')
  from handoffToHuman_handoffState [OF r_handoffToHuman.hyps(2)] r_handoffToHuman.IH
  show ?case using handoff_inv_same handoff_inv_set by blast
next
  case (r_releaseToAI s c summary md r2 s')
  from releaseToAI_handoffState [OF r_releaseToAI.hyps(2)] r_releaseToAI.IH
  show ?case using handoff_inv_same handoff_inv_delete by blast
next
  case (r_processMessage s fuel c msg opts r3 s')
  from processMessage_handoffState [OF r_processMessage.hyps(2)] r_processMessage.IH
  show ?case using handoff_inv_same handoff_inv_set by blast
qed

text \<open>
  Claim C10. In every state an assistant can be in, every entry of the handoff map has
  \<^verbatim>\<open>isHumanMode\<close> true, so \<^verbatim>\<open>isInHumanMode(chatId)\<close> holds exactly when the map has an
  entry for the chat; and \<^verbatim>\<open>getHumanModeChats\<close> returns one record for each chat in
  human mode and no other: the chat ids of its records are distinct, they are exactly
  the chats in human mode, and each record carries the handoff state the map holds for
  its chat.
\<close>

theorem handoff_entries_are_human_mode:
  assumes "reachable ev s"
  shows "(\<forall>c h. map_get (handoffState s) c = Some h \<longrightarrow> isHumanMode h)
       \<and> (\<forall>c. isInHumanMode s c \<longleftrightarrow> map_get (handoffState s) c \<noteq> None)
       \<and> distinct (map hm_chatId (getHumanModeChats s))
       \<and> set (map hm_chatId (getHumanModeChats s)) = {c. isInHumanMode s c}
       \<and> (\<forall>r \<in> set (getHumanModeChats s).
             map_get (handoffState s) (hm_chatId r) = Some (handoff_state.truncate r))"
proof -
  from assms have inv: "handoff_inv s" by (rule reachable_handoff_inv)
  then have d: "distinct (map fst (handoffState s))"
    and hm: "\<And>e. e \<in> set (handoffState s) \<Longrightarrow> isHumanMode (snd e)"
    by (auto simp: handoff_inv_def)
  have 1: "\<forall>c h. map_get (handoffState s) c = Some h \<longrightarrow> isHumanMode h"
    using hm by (auto dest!: map_of_SomeD)
  have 2: "\<forall>c. isInHumanMode s c \<longleftrightarrow> map_get (handoffState s) c \<noteq> None"
    using 1 by (auto simp: isInHumanMode_def split: option.splits)
  have ids: "map hm_chatId (getHumanModeChats s) = map fst (handoffState s)"
    by (simp add: getHumanModeChats_def hm_ext comp_def)
  have 3: "distinct (map hm_chatId (getHumanModeChats s))" using d ids by simp
  have 4: "set (map hm_chatId (getHumanModeChats s)) = {c. isInHumanMode s c}"
    using 2 ids by (auto simp: map_of_eq_None_iff)
  have 5: "\<forall>r \<in> set (getHumanModeChats s).
             map_get (handoffState s) (hm_chatId r) = Some (handoff_state.truncate r)"
    using d by (auto simp: getHumanModeChats_def hm_ext trunc_ext)
  from 1 2 3 4 5 show ?thesis by blast
qed

lemma alice_reachable: "reachable pong_env alice_with_human"
proof -
  have "reachable pong_env fresh_assistant"
    unfolding fresh_assistant_def by (rule r_new)
  moreover have "handoffToHuman pong_env ''alice'' ''billing'' [] fresh_assistant =
                   (fst (handoffToHuman pong_env ''alice'' ''billing'' [] fresh_assistant),
                    alice_with_human)"
    by (simp add: alice_with_human_def)
  ultimately show ?thesis by (rule r_handoffToHuman)
qed

theorem handoff_entries_are_human_mode_witness:
  "reachable pong_env alice_with_human
   \<and> isInHumanMode alice_with_human ''alice''
   \<and> map_get (handoffState alice_with_human) ''alice'' \<noteq> None
   \<and> distinct (map hm_chatId (getHumanModeChats alice_with_human))
   \<and> set (map hm_chatId (getHumanModeChats alice_with_human)) = {c. isInHumanMode alice_with_human c}
   \<and> map hm_chatId (getHumanModeChats alice_with_human) = [''alice'']"
proof -
  have ids: "map hm_chatId (getHumanModeChats alice_with_human) = [''alice'']"
    by (simp add: getHumanModeChats_def alice_handoffState hm_ext)
  from handoff_entries_are_human_mode [OF alice_reachable] alice_reachable alice_in_human_mode ids
  show ?thesis by blast
qed

subsection \<open>Middleware short circuit\<close>









text \<open>
  The steps before \<open>m\<close> must call \<^verbatim>\<open>next()\<close> once only. All calls of \<^verbatim>\<open>next\<close> share
  one index, so when a first step awaits \<^verbatim>\<open>next()\<close> twice, its second call invokes
  the step after the one that answered: with the steps \<open>await_twice\<close>, one that answers
  \<^verbatim>\<open>busy\<close> and one that answers \<^verbatim>\<open>never\<close>, all three run and \<^verbatim>\<open>ask\<close> returns
  \<^verbatim>\<open>never\<close>.
\<close>

lemma double_next:
  "(case ask 0 pong_env ''carol'' ''hello'' no_options
           (use (reply_with ''never'') (use (reply_with ''busy'') (use await_twice fresh_assistant))) of
      Some (Inr r, s') \<Rightarrow> r = ''never''
    | _ \<Rightarrow> False)
   \<and> ran (fst (executeMiddleware [await_twice, reply_with ''busy'', reply_with ''never'']
                 (initial_context ''carol'' ''hello'' no_options))) = [0, 1, 2]"
  by (simp add: eval_defs await_twice_def)

subsection \<open>Eviction and reload\<close>

lemma history_of_updates [simp]:
  "history_of (s\<lparr>backend_calls := n\<rparr>) a = history_of s a"
  "history_of (s\<lparr>now := t\<rparr>) a = history_of s a"
  "history_of (s\<lparr>stats_requests := k\<rparr>) a = history_of s a"
  "history_of (s\<lparr>threads := ts\<rparr>) a = history_of s a"
  "history_of (s\<lparr>storage := st\<rparr>) a = history_of s a"
  "history_of (record_time s) a = history_of s a"
  by (simp_all add: history_of_def record_time_def Let_def)

lemma history_of_begin_ask:
  "history_of (begin_ask a p s) a = history_of s a @ [\<lparr>role = ''user'', content = p, name = None\<rparr>]"
  by (simp add: begin_ask_def history_of_def push_history_def)

lemma history_of_trim_history: "history_of (trim_history a s) a = slice_last 20 (history_of s a)"
  by (simp add: trim_history_def Let_def history_of_def slice_last_def)

lemma history_of_finish_ask:
  "history_of (finish_ask a r s) a =
     slice_last 20 (history_of s a @ [\<lparr>role = ''assistant'', content = r, name = None\<rparr>])"
  by (simp add: finish_ask_def history_of_trim_history)

lemma threads_record_time: "threads (record_time s) = threads s"
  by (simp add: record_time_def Let_def)

lemma threads_begin_ask [simp]: "threads (begin_ask a p s) = threads s"
  by (simp add: begin_ask_def)

lemma threads_trim_history [simp]: "threads (trim_history a s) = threads s"
  by (simp add: trim_history_def Let_def)

lemma threads_finish_ask [simp]: "threads (finish_ask a r s) = threads s"
  by (simp add: finish_ask_def)

lemma Thread_ask_returns_history:
  assumes "Thread_ask fuel ev a p opts s = Some (Inr r, s')"
  shows "history_of s' a =
           drop (length (history_of s a) + 2 - 20)
             (history_of s a @ [\<lparr>role = ''user'', content = p, name = None\<rparr>,
                                \<lparr>role = ''assistant'', content = r, name = None\<rparr>])"
    and "threads s' = threads s"
  using assms
  by (cases rule: Thread_ask_cases;
      simp add: history_of_finish_ask history_of_begin_ask slice_last_def)+

lemma callAI_catch_fallback:
  "truthy (fallbackResponse opts) \<Longrightarrow> fst (callAI_catch ev sys msgs opts e s) \<noteq> Inl e'"
  by (cases "fallbackResponse opts") (simp_all add: callAI_catch_def truthy_def)

lemma callAI_no_throw_with_fallback:
  "truthy (fallbackResponse opts) \<Longrightarrow> callAI fuel ev sys msgs opts s \<noteq> Some (Inl e, s')"
proof (induction fuel arbitrary: msgs s)
  case 0
  then show ?case by simp
next
  case (Suc fuel)
  show ?case
  proof
    assume "callAI (Suc fuel) ev sys msgs opts s = Some (Inl e, s')"
    then show False
    proof (cases rule: callAI_cases)
      case (caught e0)
      then have "fst (callAI_catch ev sys msgs opts e0 (s\<lparr>backend_calls := Suc (backend_calls s)\<rparr>)) = Inl e"
        by (metis fst_conv)
      then show ?thesis using callAI_catch_fallback [OF Suc.prems] by blast
    next
      case (answered answer)
      then show ?thesis by simp
    next
      case (again msgs')
      then show ?thesis using Suc.IH [OF Suc.prems] by blast
    qed
  qed
qed

lemma Thread_ask_no_throw_with_fallback:
  assumes "truthy (fallbackResponse opts)"
  shows "Thread_ask fuel ev a p opts s \<noteq> Some (Inl e, s')"
proof
  assume a: "Thread_ask fuel ev a p opts s = Some (Inl e, s')"
  let ?c = "callAI fuel ev (t_context (thread_heap (begin_ask a p s) a))
              (history_of (begin_ask a p s) a) opts (begin_ask a p s)"
  show False
  proof (cases ?c)
    case None
    with a show False by (simp add: Thread_ask_def)
  next
    case (Some res)
    obtain r3 s3 where res: "res = (r3, s3)" by (cases res)
    show False
    proof (cases r3)
      case (Inl e3)
      with Some res have "?c = Some (Inl e3, s3)" by simp
      with callAI_no_throw_with_fallback [OF assms] show False by blast
    next
      case (Inr x)
      with a Some res show False by (simp add: Thread_ask_def)
    qed
  qed
qed

lemma evict_single:
  assumes "maxThreads s = 1" and "threads s = [(X, x)]"
  shows "cleanupOldThreads s = (Inr (), (saveThread x s)\<lparr>threads := []\<rparr>)"
  using assms by (simp add: cleanupOldThreads_def)

lemma createThread_single_slot:
  assumes "maxThreads s = 1" and "threads s = [(X, x)]"
  shows "createThread ev Y s =
     (case getThread Y ((saveThread x s)\<lparr>threads := []\<rparr>) of
        (loaded, s2) \<Rightarrow>
          (case (case loaded of Some d \<Rightarrow> (d, s2) | None \<Rightarrow> fresh_thread_data Y s2) of
             (d, s3) \<Rightarrow>
               (case new_Thread ev Y d s3 of
                  (Inl e, s4) \<Rightarrow> (Inl e, s4)
                | (Inr a, s4) \<Rightarrow> (Inr a, s4\<lparr>threads := map_set (threads s4) Y a\<rparr>))))"
  using assms by (simp add: createThread_def evict_single [OF assms])

lemma single_slot_create:
  assumes "maxThreads s = 1" and "threads s = [(X, x)]" and "chatId (thread_heap s x) = X"
      and "X \<noteq> Y" and "provider_registered ev (provider s)"
  shows "\<exists>s1. createThread ev Y s = (Inr (next_thread s), s1)
           \<and> threads s1 = [(Y, next_thread s)]
           \<and> maxThreads s1 = maxThreads s \<and> provider s1 = provider s \<and> ttl s1 = ttl s
           \<and> middleware s1 = middleware s \<and> handoffState s1 = handoffState s
           \<and> chatId (thread_heap s1 (next_thread s)) = Y
           \<and> map_get (storage s1) X =
                Some \<lparr>d_chatId = X, d_context = t_context (thread_heap s x),
                      d_history = history (thread_heap s x), d_lastUsed = lastUsed (thread_heap s x)\<rparr>
           \<and> (\<forall>r < next_array s. array_heap s1 r = array_heap s r)"
  using assms
  by (auto simp: createThread_single_slot [OF assms(1,2)] getThread_def fresh_thread_data_def
        new_Thread_def saveThread_storage update_conv' split: option.splits)

lemma single_slot_reload:
  assumes "maxThreads s = 1" and "threads s = [(X, x)]" and "chatId (thread_heap s x) = X"
      and "X \<noteq> Y" and "provider_registered ev (provider s)"
      and "map_get (storage s) Y = Some d"
      and "ttl s = 0 \<or> now s - d_lastUsed d \<le> ttl s * 1000"
  shows "\<exists>s1. createThread ev Y s = (Inr (next_thread s), s1)
           \<and> threads s1 = [(Y, next_thread s)]
           \<and> history (thread_heap s1 (next_thread s)) = d_history d
           \<and> t_context (thread_heap s1 (next_thread s)) = d_context d
           \<and> array_heap s1 = array_heap s
           \<and> map_get (storage s1) Y = Some d"
  using assms
  by (auto simp: createThread_single_slot [OF assms(1,2)] getThread_def
        new_Thread_def saveThread_storage update_conv' split: option.splits)

lemma single_slot_expired:
  assumes "maxThreads s = 1" and "threads s = [(X, x)]" and "chatId (thread_heap s x) = X"
      and "X \<noteq> Y" and "provider_registered ev (provider s)"
      and "map_get (storage s) Y = Some d"
      and "ttl s \<noteq> 0 \<and> now s - d_lastUsed d > ttl s * 1000"
  shows "\<exists>s1. createThread ev Y s = (Inr (next_thread s), s1)
           \<and> threads s1 = [(Y, next_thread s)]
           \<and> history_of s1 (next_thread s) = []
           \<and> t_context (thread_heap s1 (next_thread s)) = Map.empty
           \<and> map_get (storage s1) Y = None"
  using assms
  by (auto simp: createThread_single_slot [OF assms(1,2)] getThread_def fresh_thread_data_def
        new_Thread_def saveThread_storage update_conv' delete_conv' history_of_def
        split: option.splits)

lemma ask_after_create:
  assumes guard: "\<not> isInHumanMode s0 A \<or> ignoreHandoffState opts"
      and ex: "executeMiddleware (middleware s0) (initial_context A p opts) = (pl, None)"
      and nr: "\<not> truthy (response (p_context pl))" and nt: "c_thread (p_context pl) = None"
      and absent: "map_get (threads s0) A = None"
      and c: "createThread ev A (s0\<lparr>stats_requests := Suc (stats_requests s0)\<rparr>) = (Inr a', s2)"
      and t2: "map_get (threads s2) A = Some a'"
      and ask: "ask fuel ev A p opts s0 = Some (Inr r, s3)"
  shows "map_get (threads s3) A = Some a' \<and>
         history_of s3 a' =
           drop (length (history_of s2 a') + 2 - 20)
             (history_of s2 a' @ [\<lparr>role = ''user'', content = p, name = None\<rparr>,
                                  \<lparr>role = ''assistant'', content = r, name = None\<rparr>])"
proof -
  let ?s' = "s0\<lparr>stats_requests := Suc (stats_requests s0)\<rparr>"
  have g: "\<not> (isInHumanMode s0 A \<and> \<not> ignoreHandoffState opts)" using guard by blast
  have got: "get_or_create_thread ev None A ?s' = (Inr a', s2)"
    using absent c by (simp add: get_or_create_thread_def)
  have body: "ask_try fuel ev A p opts ?s' =
               (case Thread_ask fuel ev a' p opts s2 of
                  None \<Rightarrow> None
                | Some (Inl e, s4) \<Rightarrow> Some (Inl e, s4)
                | Some (Inr x, s4) \<Rightarrow> Some (Inr x, record_time s4))"
    using ex nr nt got by (simp add: ask_try_def)
  show ?thesis
  proof (cases "Thread_ask fuel ev a' p opts s2")
    case None
    with ask g body show ?thesis by (simp add: ask_def)
  next
    case (Some res)
    obtain r4 s4 where res: "res = (r4, s4)" by (cases res)
    show ?thesis
    proof (cases r4)
      case (Inl e)
      with Some res have ta: "Thread_ask fuel ev a' p opts s2 = Some (Inl e, s4)" by simp
      then have "\<not> truthy (fallbackResponse opts)"
        using Thread_ask_no_throw_with_fallback by blast
      with ask g body ta show ?thesis by (simp add: ask_def)
    next
      case (Inr x)
      with Some res have ta: "Thread_ask fuel ev a' p opts s2 = Some (Inr x, s4)" by simp
      with ask g body have r: "r = x" and s3: "s3 = record_time s4" by (simp_all add: ask_def)
      from Thread_ask_returns_history [OF ta] t2
      have "history_of s4 a' =
              drop (length (history_of s2 a') + 2 - 20)
                (history_of s2 a' @ [\<lparr>role = ''user'', content = p, name = None\<rparr>,
                                     \<lparr>role = ''assistant'', content = x, name = None\<rparr>])"
        and "map_get (threads s4) A = Some a'"
        by simp_all
      then show ?thesis using r s3 by (simp add: threads_record_time)
    qed
  qed
qed

text \<open>
  Claim C7, as the code has it. The limit is one thread, the working set holds the
  thread of chat \<open>A\<close> alone (registered under \<open>A\<close> and with \<open>A\<close> as its
  \<^verbatim>\<open>chatId\<close>), whose history is an array allocated before, the provider is
  registered, and a thread is created for another chat \<open>B\<close>. Then the thread of
  \<open>A\<close> is evicted: \<^verbatim>\<open>_cleanupOldThreads\<close> saves it and then deletes it from the
  working set, which afterwards holds the thread of \<open>B\<close> alone, and the storage holds
  the snapshot of \<open>A\<close> with its context, history array and \<^verbatim>\<open>lastUsed\<close>.

  Let the clock then stand at \<open>t\<close>. If \<open>t\<close> is not more than the time to live after
  \<open>A\<close> was last used, or the time to live is switched off, creating the thread of
  \<open>A\<close> again loads it from the storage with the history and context it had, and the
  snapshot stays. If the time to live is on and has passed, the storage deletes the
  snapshot on that read, and the thread created has an empty history and an empty
  context.

  An \<^verbatim>\<open>ask\<close> for \<open>A\<close> at time \<open>t\<close> reloads the thread under these conditions only:
  the human-mode guard lets the call through, the middleware chain ends without
  throwing, leaves no truthy response and no thread in the context, and the call
  returns an answer \<open>r\<close>. Then \<open>A\<close> is in the working set. Before the expiry its
  history is the history it had before the eviction, followed by the prompt and \<open>r\<close>,
  without the first entries in excess of 20. After the expiry its history is the
  prompt and \<open>r\<close> alone.
\<close>

theorem eviction_and_reload:
  assumes "maxThreads s = 1" and "threads s = [(A, a)]" and "chatId (thread_heap s a) = A"
      and "A \<noteq> B" and "provider_registered ev (provider s)"
      and "history (thread_heap s a) < next_array s"
  shows "\<exists>b s1. createThread ev B s = (Inr b, s1)
          \<and> cleanupOldThreads s = (Inr (), (saveThread a s)\<lparr>threads := map_delete (threads s) A\<rparr>)
          \<and> threads s1 = [(B, b)]
          \<and> map_get (storage s1) A =
               Some \<lparr>d_chatId = A, d_context = t_context (thread_heap s a),
                     d_history = history (thread_heap s a), d_lastUsed = lastUsed (thread_heap s a)\<rparr>
          \<and> (\<forall>t. ttl s = 0 \<or> t - lastUsed (thread_heap s a) \<le> ttl s * 1000 \<longrightarrow>
                (\<exists>a' s2. createThread ev A (s1\<lparr>now := t\<rparr>) = (Inr a', s2)
                    \<and> map_get (threads s2) A = Some a'
                    \<and> history_of s2 a' = history_of s a
                    \<and> t_context (thread_heap s2 a') = t_context (thread_heap s a)
                    \<and> map_get (storage s2) A = map_get (storage s1) A)
              \<and> (\<forall>fuel p opts pl r s3.
                    (\<not> isInHumanMode s A \<or> ignoreHandoffState opts)
                  \<and> executeMiddleware (middleware s) (initial_context A p opts) = (pl, None)
                  \<and> \<not> truthy (response (p_context pl)) \<and> c_thread (p_context pl) = None
                  \<and> ask fuel ev A p opts (s1\<lparr>now := t\<rparr>) = Some (Inr r, s3)
                  \<longrightarrow> (\<exists>a'. map_get (threads s3) A = Some a'
                         \<and> history_of s3 a' =
                             drop (length (history_of s a) + 2 - 20)
                               (history_of s a @ [\<lparr>role = ''user'', content = p, name = None\<rparr>,
                                                  \<lparr>role = ''assistant'', content = r, name = None\<rparr>]))))
          \<and> (\<forall>t. ttl s \<noteq> 0 \<and> t - lastUsed (thread_heap s a) > ttl s * 1000 \<longrightarrow>
                (\<exists>a' s2. createThread ev A (s1\<lparr>now := t\<rparr>) = (Inr a', s2)
                    \<and> map_get (threads s2) A = Some a'
                    \<and> history_of s2 a' = []
                    \<and> t_context (thread_heap s2 a') = Map.empty
                    \<and> map_get (storage s2) A = None)
              \<and> (\<forall>fuel p opts pl r s3.
                    (\<not> isInHumanMode s A \<or> ignoreHandoffState opts)
                  \<and> executeMiddleware (middleware s) (initial_context A p opts) = (pl, None)
                  \<and> \<not> truthy (response (p_context pl)) \<and> c_thread (p_context pl) = None
                  \<and> ask fuel ev A p opts (s1\<lparr>now := t\<rparr>) = Some (Inr r, s3)
                  \<longrightarrow> (\<exists>a'. map_get (threads s3) A = Some a'
                         \<and> history_of s3 a' =
                             [\<lparr>role = ''user'', content = p, name = None\<rparr>,
                              \<lparr>role = ''assistant'', content = r, name = None\<rparr>])))"
proof -
  let ?snap = "\<lparr>d_chatId = A, d_context = t_context (thread_heap s a),
                d_history = history (thread_heap s a), d_lastUsed = lastUsed (thread_heap s a)\<rparr>"
  let ?b = "next_thread s"
  from single_slot_create [OF assms(1-5)] obtain s1 where
    cr: "createThread ev B s = (Inr ?b, s1)" and
    th: "threads s1 = [(B, ?b)]" and
    mx: "maxThreads s1 = 1" and pr: "provider s1 = provider s" and tt: "ttl s1 = ttl s" and
    mw: "middleware s1 = middleware s" and hs: "handoffState s1 = handoffState s" and
    cb: "chatId (thread_heap s1 ?b) = B" and
    st: "map_get (storage s1) A = Some ?snap" and
    ar: "\<forall>r < next_array s. array_heap s1 r = array_heap s r"
    using assms(1) by auto
  have cl: "cleanupOldThreads s = (Inr (), (saveThread a s)\<lparr>threads := map_delete (threads s) A\<rparr>)"
    using evict_single [OF assms(1,2)] assms(2) by simp
  have prior: "array_heap s1 (history (thread_heap s a)) = history_of s a"
    using ar assms(6) by (simp add: history_of_def)
  have absent: "map_get (threads (s1\<lparr>now := t\<rparr>)) A = None" for t
    using th assms(4) by simp
  have reload: "\<exists>s2. createThread ev A s' = (Inr (next_thread s'), s2)
                  \<and> map_get (threads s2) A = Some (next_thread s')
                  \<and> history_of s2 (next_thread s') = history_of s a
                  \<and> t_context (thread_heap s2 (next_thread s')) = t_context (thread_heap s a)
                  \<and> map_get (storage s2) A = map_get (storage s1) A"
    if s': "s' = s1\<lparr>now := t, stats_requests := k\<rparr>"
      and ttl: "ttl s = 0 \<or> t - lastUsed (thread_heap s a) \<le> ttl s * 1000" for s' t k
  proof -
    have 1: "maxThreads s' = 1" "threads s' = [(B, ?b)]" "chatId (thread_heap s' ?b) = B"
      "B \<noteq> A" "provider_registered ev (provider s')" "map_get (storage s') A = Some ?snap"
      "ttl s' = 0 \<or> now s' - d_lastUsed ?snap \<le> ttl s' * 1000"
      using s' mx th cb assms(4,5) pr st tt ttl by simp_all
    from single_slot_reload [OF 1] obtain s2 where
      2: "createThread ev A s' = (Inr (next_thread s'), s2)"
         "threads s2 = [(A, next_thread s')]"
         "history (thread_heap s2 (next_thread s')) = history (thread_heap s a)"
         "t_context (thread_heap s2 (next_thread s')) = t_context (thread_heap s a)"
         "array_heap s2 = array_heap s'"
         "map_get (storage s2) A = Some ?snap"
      by auto
    have "history_of s2 (next_thread s') = history_of s a"
      using 2(3,5) prior s' by (simp add: history_of_def)
    with 2 st show ?thesis by simp
  qed
  have fresh: "\<exists>s2. createThread ev A s' = (Inr (next_thread s'), s2)
                  \<and> map_get (threads s2) A = Some (next_thread s')
                  \<and> history_of s2 (next_thread s') = []
                  \<and> t_context (thread_heap s2 (next_thread s')) = Map.empty
                  \<and> map_get (storage s2) A = None"
    if s': "s' = s1\<lparr>now := t, stats_requests := k\<rparr>"
      and ttl: "ttl s \<noteq> 0 \<and> t - lastUsed (thread_heap s a) > ttl s * 1000" for s' t k
  proof -
    have 1: "maxThreads s' = 1" "threads s' = [(B, ?b)]" "chatId (thread_heap s' ?b) = B"
      "B \<noteq> A" "provider_registered ev (provider s')" "map_get (storage s') A = Some ?snap"
      "ttl s' \<noteq> 0 \<and> now s' - d_lastUsed ?snap > ttl s' * 1000"
      using s' mx th cb assms(4,5) pr st tt ttl by simp_all
    from single_slot_expired [OF 1] obtain s2 where
      2: "createThread ev A s' = (Inr (next_thread s'), s2)"
         "threads s2 = [(A, next_thread s')]"
         "history_of s2 (next_thread s') = []"
         "t_context (thread_heap s2 (next_thread s')) = Map.empty"
         "map_get (storage s2) A = None"
      by auto
    then show ?thesis by simp
  qed
  have same: "s1\<lparr>now := t\<rparr> = s1\<lparr>now := t, stats_requests := stats_requests s1\<rparr>" for t
    by simp
  have upd: "(s1\<lparr>now := t\<rparr>)\<lparr>stats_requests := Suc (stats_requests (s1\<lparr>now := t\<rparr>))\<rparr>
               = s1\<lparr>now := t, stats_requests := Suc (stats_requests s1)\<rparr>" for t
    by simp
  have guard': "\<not> isInHumanMode (s1\<lparr>now := t\<rparr>) A \<or> ignoreHandoffState opts"
    if "\<not> isInHumanMode s A \<or> ignoreHandoffState opts" for t opts
    using that hs by (simp add: isInHumanMode_def)
  have in1: "\<exists>a' s2. createThread ev A (s1\<lparr>now := t\<rparr>) = (Inr a', s2)
                    \<and> map_get (threads s2) A = Some a'
                    \<and> history_of s2 a' = history_of s a
                    \<and> t_context (thread_heap s2 a') = t_context (thread_heap s a)
                    \<and> map_get (storage s2) A = map_get (storage s1) A"
    if ttl: "ttl s = 0 \<or> t - lastUsed (thread_heap s a) \<le> ttl s * 1000" for t
    using reload [OF same ttl] by blast
  have in2: "\<exists>a'. map_get (threads s3) A = Some a'
                 \<and> history_of s3 a' =
                     drop (length (history_of s a) + 2 - 20)
                       (history_of s a @ [\<lparr>role = ''user'', content = p, name = None\<rparr>,
                                          \<lparr>role = ''assistant'', content = r, name = None\<rparr>])"
    if ttl: "ttl s = 0 \<or> t - lastUsed (thread_heap s a) \<le> ttl s * 1000"
      and guard: "\<not> isInHumanMode s A \<or> ignoreHandoffState opts"
      and ex: "executeMiddleware (middleware s) (initial_context A p opts) = (pl, None)"
      and nr: "\<not> truthy (response (p_context pl))" and nt: "c_thread (p_context pl) = None"
      and ask: "ask fuel ev A p opts (s1\<lparr>now := t\<rparr>) = Some (Inr r, s3)"
    for t fuel p opts pl r s3
  proof -
    let ?s' = "s1\<lparr>now := t, stats_requests := Suc (stats_requests s1)\<rparr>"
    from reload [OF refl ttl, of "Suc (stats_requests s1)"] obtain s2 where
      c: "createThread ev A ?s' = (Inr (next_thread ?s'), s2)" and
      t2: "map_get (threads s2) A = Some (next_thread ?s')" and
      h2: "history_of s2 (next_thread ?s') = history_of s a"
      by auto
    have ex': "executeMiddleware (middleware (s1\<lparr>now := t\<rparr>)) (initial_context A p opts) = (pl, None)"
      using ex mw by simp
    from c have c': "createThread ev A
        ((s1\<lparr>now := t\<rparr>)\<lparr>stats_requests := Suc (stats_requests (s1\<lparr>now := t\<rparr>))\<rparr>)
          = (Inr (next_thread ?s'), s2)"
      by (simp only: upd)
    from ask_after_create [OF guard' [OF guard] ex' nr nt absent c' t2 ask] h2
    show ?thesis by auto
  qed
  have out1: "\<exists>a' s2. createThread ev A (s1\<lparr>now := t\<rparr>) = (Inr a', s2)
                    \<and> map_get (threads s2) A = Some a'
                    \<and> history_of s2 a' = []
                    \<and> t_context (thread_heap s2 a') = Map.empty
                    \<and> map_get (storage s2) A = None"
    if ttl: "ttl s \<noteq> 0 \<and> t - lastUsed (thread_heap s a) > ttl s * 1000" for t
    using fresh [OF same ttl] by blast
  have out2: "\<exists>a'. map_get (threads s3) A = Some a'
                 \<and> history_of s3 a' =
                     [\<lparr>role = ''user'', content = p, name = None\<rparr>,
                      \<lparr>role = ''assistant'', content = r, name = None\<rparr>]"
    if ttl: "ttl s \<noteq> 0 \<and> t - lastUsed (thread_heap s a) > ttl s * 1000"
      and guard: "\<not> isInHumanMode s A \<or> ignoreHandoffState opts"
      and ex: "executeMiddleware (middleware s) (initial_context A p opts) = (pl, None)"
      and nr: "\<not> truthy (response (p_context pl))" and nt: "c_thread (p_context pl) = None"
      and ask: "ask fuel ev A p opts (s1\<lparr>now := t\<rparr>) = Some (Inr r, s3)"
    for t fuel p opts pl r s3
  proof -
    let ?s' = "s1\<lparr>now := t, stats_requests := Suc (stats_requests s1)\<rparr>"
    from fresh [OF refl ttl, of "Suc (stats_requests s1)"] obtain s2 where
      c: "createThread ev A ?s' = (Inr (next_thread ?s'), s2)" and
      t2: "map_get (threads s2) A = Some (next_thread ?s')" and
      h2: "history_of s2 (next_thread ?s') = []"
      by auto
    have ex': "executeMiddleware (middleware (s1\<lparr>now := t\<rparr>)) (initial_context A p opts) = (pl, None)"
      using ex mw by simp
    from c have c': "createThread ev A
        ((s1\<lparr>now := t\<rparr>)\<lparr>stats_requests := Suc (stats_requests (s1\<lparr>now := t\<rparr>))\<rparr>)
          = (Inr (next_thread ?s'), s2)"
      by (simp only: upd)
    from ask_after_create [OF guard' [OF guard] ex' nr nt absent c' t2 ask] h2
    show ?thesis by auto
  qed
  from cr cl th st in1 in2 out1 out2 show ?thesis by blast
qed

lemmas eval2 = single_slot_assistant_def alice_asked_def alice_evicted_def eval_defs cleanupOldThreads_def

lemma alice_asked_facts:
  "maxThreads alice_asked = 1" "threads alice_asked = [(''alice'', 0)]"
  "chatId (thread_heap alice_asked 0) = ''alice''"
  "provider_registered pong_env (provider alice_asked)"
  "history (thread_heap alice_asked 0) < next_array alice_asked"
  "ttl alice_asked = 3600" "lastUsed (thread_heap alice_asked 0) = 1000"
  "middleware alice_asked = []"
  "\<not> isInHumanMode alice_asked ''alice''"
  by (simp_all add: eval2)

lemma alice_asked_history:
  "history_of alice_asked 0 =
     [\<lparr>role = ''user'', content = ''hello'', name = None\<rparr>,
      \<lparr>role = ''assistant'', content = ''pong'', name = None\<rparr>]"
  by (simp add: eval2)

lemma alice_again:
  "\<exists>s3. ask (Suc 0) pong_env ''alice'' ''again'' no_options (alice_evicted\<lparr>now := 2000\<rparr>)
          = Some (Inr ''pong'', s3)"
  by (simp add: eval2)

lemma alice_again_late:
  "\<exists>s3. ask (Suc 0) pong_env ''alice'' ''again'' no_options (alice_evicted\<lparr>now := 3601001\<rparr>)
          = Some (Inr ''pong'', s3)"
  by (simp add: eval2)

text \<open>
  Claim C7 as stated fails once the snapshot has expired. \<^verbatim>\<open>alice\<close> was last used
  at time 1000 and the time to live is 3600 seconds; her thread is evicted, and she
  asks again at time 3601001. The storage deletes her snapshot and reports none, a
  fresh thread is created, and after the ask her history holds the new prompt and its
  answer only: the two earlier entries are gone.
\<close>

theorem expired_snapshot_counterexample:
  "history_of alice_asked 0 =
     [\<lparr>role = ''user'', content = ''hello'', name = None\<rparr>,
      \<lparr>role = ''assistant'', content = ''pong'', name = None\<rparr>]
   \<and> ttl alice_asked = 3600 \<and> lastUsed (thread_heap alice_asked 0) = 1000
   \<and> (case ask (Suc 0) pong_env ''alice'' ''again'' no_options (alice_evicted\<lparr>now := 3601001\<rparr>) of
      Some (Inr r, s3) \<Rightarrow>
        (case map_get (threads s3) ''alice'' of
           Some a' \<Rightarrow> history_of s3 a' =
                        [\<lparr>role = ''user'', content = ''again'', name = None\<rparr>,
                         \<lparr>role = ''assistant'', content = ''pong'', name = None\<rparr>]
         | None \<Rightarrow> False)
    | _ \<Rightarrow> False)"
  by (simp add: eval2)

text \<open>
  An instance of each case: \<^verbatim>\<open>alice\<close> is evicted by \<^verbatim>\<open>bob\<close> and asks again one
  second after her first question, or one hour and one millisecond after it.
\<close>

theorem eviction_and_reload_witness:
  "maxThreads alice_asked = 1 \<and> threads alice_asked = [(''alice'', 0)]
   \<and> chatId (thread_heap alice_asked 0) = ''alice'' \<and> ''alice'' \<noteq> ''bob''
   \<and> provider_registered pong_env (provider alice_asked)
   \<and> history (thread_heap alice_asked 0) < next_array alice_asked
   \<and> (\<exists>b s3 a' s4 a''. createThread pong_env ''bob'' alice_asked = (Inr b, alice_evicted)
          \<and> threads alice_evicted = [(''bob'', b)]
          \<and> map_option d_history (map_get (storage alice_evicted) ''alice'')
               = Some (history (thread_heap alice_asked 0))
          \<and> ask (Suc 0) pong_env ''alice'' ''again'' no_options (alice_evicted\<lparr>now := 2000\<rparr>)
               = Some (Inr ''pong'', s3)
          \<and> map_get (threads s3) ''alice'' = Some a'
          \<and> history_of s3 a' =
               [\<lparr>role = ''user'', content = ''hello'', name = None\<rparr>,
                \<lparr>role = ''assistant'', content = ''pong'', name = None\<rparr>,
                \<lparr>role = ''user'', content = ''again'', name = None\<rparr>,
                \<lparr>role = ''assistant'', content = ''pong'', name = None\<rparr>]
          \<and> ask (Suc 0) pong_env ''alice'' ''again'' no_options (alice_evicted\<lparr>now := 3601001\<rparr>)
               = Some (Inr ''pong'', s4)
          \<and> map_get (threads s4) ''alice'' = Some a''
          \<and> history_of s4 a'' =
               [\<lparr>role = ''user'', content = ''again'', name = None\<rparr>,
                \<lparr>role = ''assistant'', content = ''pong'', name = None\<rparr>])"
proof -
  note f = alice_asked_facts
  have ne: "''alice'' \<noteq> ''bob''" by simp
  from eviction_and_reload [OF f(1) f(2) f(3) ne f(4) f(5)]
  obtain b s1 where
    cr: "createThread pong_env ''bob'' alice_asked = (Inr b, s1)" and
    cl: "cleanupOldThreads alice_asked =
           (Inr (), (saveThread 0 alice_asked)\<lparr>threads := map_delete (threads alice_asked) ''alice''\<rparr>)" and
    th: "threads s1 = [(''bob'', b)]" and
    st: "map_get (storage s1) ''alice'' =
           Some \<lparr>d_chatId = ''alice'', d_context = t_context (thread_heap alice_asked 0),
                 d_history = history (thread_heap alice_asked 0),
                 d_lastUsed = lastUsed (thread_heap alice_asked 0)\<rparr>" and
    before: "\<forall>t. ttl alice_asked = 0 \<or> t - lastUsed (thread_heap alice_asked 0) \<le> ttl alice_asked * 1000 \<longrightarrow>
                (\<exists>a' s2. createThread pong_env ''alice'' (s1\<lparr>now := t\<rparr>) = (Inr a', s2)
                    \<and> map_get (threads s2) ''alice'' = Some a'
                    \<and> history_of s2 a' = history_of alice_asked 0
                    \<and> t_context (thread_heap s2 a') = t_context (thread_heap alice_asked 0)
                    \<and> map_get (storage s2) ''alice'' = map_get (storage s1) ''alice'')
              \<and> (\<forall>fuel p opts pl r s3.
                    (\<not> isInHumanMode alice_asked ''alice'' \<or> ignoreHandoffState opts)
                  \<and> executeMiddleware (middleware alice_asked) (initial_context ''alice'' p opts) = (pl, None)
                  \<and> \<not> truthy (response (p_context pl)) \<and> c_thread (p_context pl) = None
                  \<and> ask fuel pong_env ''alice'' p opts (s1\<lparr>now := t\<rparr>) = Some (Inr r, s3)
                  \<longrightarrow> (\<exists>a'. map_get (threads s3) ''alice'' = Some a'
                         \<and> history_of s3 a' =
                             drop (length (history_of alice_asked 0) + 2 - 20)
                               (history_of alice_asked 0 @ [\<lparr>role = ''user'', content = p, name = None\<rparr>,
                                                  \<lparr>role = ''assistant'', content = r, name = None\<rparr>])))" and
    after: "\<forall>t. ttl alice_asked \<noteq> 0 \<and> t - lastUsed (thread_heap alice_asked 0) > ttl alice_asked * 1000 \<longrightarrow>
                (\<exists>a' s2. createThread pong_env ''alice'' (s1\<lparr>now := t\<rparr>) = (Inr a', s2)
                    \<and> map_get (threads s2) ''alice'' = Some a'
                    \<and> history_of s2 a' = []
                    \<and> t_context (thread_heap s2 a') = Map.empty
                    \<and> map_get (storage s2) ''alice'' = None)
              \<and> (\<forall>fuel p opts pl r s3.
                    (\<not> isInHumanMode alice_asked ''alice'' \<or> ignoreHandoffState opts)
                  \<and> executeMiddleware (middleware alice_asked) (initial_context ''alice'' p opts) = (pl, None)
                  \<and> \<not> truthy (response (p_context pl)) \<and> c_thread (p_context pl) = None
                  \<and> ask fuel pong_env ''alice'' p opts (s1\<lparr>now := t\<rparr>) = Some (Inr r, s3)
                  \<longrightarrow> (\<exists>a'. map_get (threads s3) ''alice'' = Some a'
                         \<and> history_of s3 a' =
                             [\<lparr>role = ''user'', content = p, name = None\<rparr>,
                              \<lparr>role = ''assistant'', content = r, name = None\<rparr>]))"
    by (elim exE conjE) (rule that; assumption)
  from cr have s1: "s1 = alice_evicted" by (simp add: alice_evicted_def)
  obtain s3 where
    ask: "ask (Suc 0) pong_env ''alice'' ''again'' no_options (s1\<lparr>now := 2000\<rparr>) = Some (Inr ''pong'', s3)"
    using alice_again s1 by blast
  obtain s4 where
    ask4: "ask (Suc 0) pong_env ''alice'' ''again'' no_options (s1\<lparr>now := 3601001\<rparr>)
             = Some (Inr ''pong'', s4)"
    using alice_again_late s1 by blast
  have g: "\<not> isInHumanMode alice_asked ''alice'' \<or> ignoreHandoffState no_options"
    by (simp add: f)
  have m: "executeMiddleware (middleware alice_asked) (initial_context ''alice'' ''again'' no_options)
            = (\<lparr>p_context = initial_context ''alice'' ''again'' no_options, index = 0, ran = []\<rparr>, None)"
    by (simp add: f executeMiddleware_def)
  have nr: "\<not> truthy (response (p_context
             \<lparr>p_context = initial_context ''alice'' ''again'' no_options, index = 0, ran = []\<rparr>))"
    by (simp add: initial_context_def truthy_def)
  have nt: "c_thread (p_context
             \<lparr>p_context = initial_context ''alice'' ''again'' no_options, index = 0, ran = []\<rparr>) = None"
    by (simp add: initial_context_def)
  have t1: "ttl alice_asked = 0 \<or> 2000 - lastUsed (thread_heap alice_asked 0) \<le> ttl alice_asked * 1000"
    by (simp add: f)
  have t2: "ttl alice_asked \<noteq> 0 \<and> 3601001 - lastUsed (thread_heap alice_asked 0) > ttl alice_asked * 1000"
    by (simp add: f)
  from before [rule_format, OF t1, THEN conjunct2, rule_format]
       g m nr nt ask
  have "\<exists>a'. map_get (threads s3) ''alice'' = Some a'
          \<and> history_of s3 a' =
              drop (length (history_of alice_asked 0) + 2 - 20)
                (history_of alice_asked 0 @ [\<lparr>role = ''user'', content = ''again'', name = None\<rparr>,
                                            \<lparr>role = ''assistant'', content = ''pong'', name = None\<rparr>])"
    by blast
  then obtain a' where
    a': "map_get (threads s3) ''alice'' = Some a'"
        "history_of s3 a' =
           [\<lparr>role = ''user'', content = ''hello'', name = None\<rparr>,
            \<lparr>role = ''assistant'', content = ''pong'', name = None\<rparr>,
            \<lparr>role = ''user'', content = ''again'', name = None\<rparr>,
            \<lparr>role = ''assistant'', content = ''pong'', name = None\<rparr>]"
    by (auto simp: alice_asked_history)
  from after [rule_format, OF t2, THEN conjunct2, rule_format]
       g m nr nt ask4
  have "\<exists>a'. map_get (threads s4) ''alice'' = Some a'
          \<and> history_of s4 a' =
              [\<lparr>role = ''user'', content = ''again'', name = None\<rparr>,
               \<lparr>role = ''assistant'', content = ''pong'', name = None\<rparr>]"
    by blast
  then obtain a'' where
    a'': "map_get (threads s4) ''alice'' = Some a''"
         "history_of s4 a'' =
            [\<lparr>role = ''user'', content = ''again'', name = None\<rparr>,
             \<lparr>role = ''assistant'', content = ''pong'', name = None\<rparr>]"
    by auto
  from st have st': "map_option d_history (map_get (storage s1) ''alice'')
                       = Some (history (thread_heap alice_asked 0))" by simp
  from f ne cr th st' ask a' ask4 a'' s1 show ?thesis by blast
qed

subsection \<open>The history bound\<close>

lemma trim_history_bound: "length (history_of (trim_history a s) a) \<le> 20"
  by (simp add: trim_history_def Let_def history_of_def slice_last_def)

lemma Thread_ask_history_bound:
  assumes "Thread_ask fuel ev a p opts s = Some (Inr r, s')"
  shows "length (history_of s' a) \<le> 20"
  using assms
  by (auto simp: Thread_ask_def finish_ask_def trim_history_bound
           split: option.splits sum.splits prod.splits)

text \<open>
  Claim C3. Whatever state a thread is in, after every call of a sequence of
  \<^verbatim>\<open>Thread.ask\<close> calls that all return, its history holds at most 20 entries. Each
  call appends the prompt and the answer to the history it finds and, if that makes
  more than 20 entries, drops entries from the front until 20 are left: the history
  afterwards is the appended list without its first \<open>length - 20\<close> entries.
\<close>

theorem history_bound_after_each_ask:
  assumes "Thread_ask_all fuel ev a qs s = Some rs"
  shows "length rs = length qs \<and>
         (\<forall>i < length rs.
            history_of (snd (rs ! i)) a =
              drop (length (history_of ((s # map snd rs) ! i) a) + 2 - 20)
                (history_of ((s # map snd rs) ! i) a @
                   [\<lparr>role = ''user'', content = fst (qs ! i), name = None\<rparr>,
                    \<lparr>role = ''assistant'', content = fst (rs ! i), name = None\<rparr>])
          \<and> length (history_of (snd (rs ! i)) a) =
              min 20 (length (history_of ((s # map snd rs) ! i) a) + 2)
          \<and> length (history_of (snd (rs ! i)) a) \<le> 20)"
  using assms
proof (induction qs arbitrary: s rs)
  case Nil
  then show ?case by simp
next
  case (Cons q qs)
  from Cons.prems obtain r s1 rs1 where
    step: "Thread_ask fuel ev a (fst q) (snd q) s = Some (Inr r, s1)" and
    rest: "Thread_ask_all fuel ev a qs s1 = Some rs1" and
    rs: "rs = (r, s1) # rs1"
    by (auto split: option.splits sum.splits prod.splits)
  from step have hist: "history_of s1 a =
      drop (length (history_of s a) + 2 - 20)
        (history_of s a @ [\<lparr>role = ''user'', content = fst q, name = None\<rparr>,
                           \<lparr>role = ''assistant'', content = r, name = None\<rparr>])"
    by (rule Thread_ask_returns_history(1))
  then have len: "length (history_of s1 a) = min 20 (length (history_of s a) + 2)"
    by simp
  note IH = Cons.IH [OF rest]
  have "length rs = length (q # qs)" using IH rs by simp
  moreover have "\<forall>i < length rs.
            history_of (snd (rs ! i)) a =
              drop (length (history_of ((s # map snd rs) ! i) a) + 2 - 20)
                (history_of ((s # map snd rs) ! i) a @
                   [\<lparr>role = ''user'', content = fst ((q # qs) ! i), name = None\<rparr>,
                    \<lparr>role = ''assistant'', content = fst (rs ! i), name = None\<rparr>])
          \<and> length (history_of (snd (rs ! i)) a) =
              min 20 (length (history_of ((s # map snd rs) ! i) a) + 2)
          \<and> length (history_of (snd (rs ! i)) a) \<le> 20"
  proof (intro allI impI)
    fix i assume i: "i < length rs"
    show "history_of (snd (rs ! i)) a =
              drop (length (history_of ((s # map snd rs) ! i) a) + 2 - 20)
                (history_of ((s # map snd rs) ! i) a @
                   [\<lparr>role = ''user'', content = fst ((q # qs) ! i), name = None\<rparr>,
                    \<lparr>role = ''assistant'', content = fst (rs ! i), name = None\<rparr>])
          \<and> length (history_of (snd (rs ! i)) a) =
              min 20 (length (history_of ((s # map snd rs) ! i) a) + 2)
          \<and> length (history_of (snd (rs ! i)) a) \<le> 20"
    proof (cases i)
      case 0
      then show ?thesis using hist len rs by simp
    next
      case (Suc j)
      then have j: "j < length rs1" using i rs by simp
      from IH j have step_j:
        "history_of (snd (rs1 ! j)) a =
              drop (length (history_of ((s1 # map snd rs1) ! j) a) + 2 - 20)
                (history_of ((s1 # map snd rs1) ! j) a @
                   [\<lparr>role = ''user'', content = fst (qs ! j), name = None\<rparr>,
                    \<lparr>role = ''assistant'', content = fst (rs1 ! j), name = None\<rparr>])
          \<and> length (history_of (snd (rs1 ! j)) a) =
              min 20 (length (history_of ((s1 # map snd rs1) ! j) a) + 2)
          \<and> length (history_of (snd (rs1 ! j)) a) \<le> 20"
        by blast
      have eqs: "rs ! i = rs1 ! j" "(s # map snd rs) ! i = (s1 # map snd rs1) ! j"
        "(q # qs) ! i = qs ! j"
        using Suc rs by simp_all
      show ?thesis unfolding eqs by (rule step_j)
    qed
  qed
  ultimately show ?case by blast
qed

lemma bob_history:
  "history_of bob_long_history 0 =
     map (\<lambda>c. \<lparr>role = ''user'', content = c, name = None\<rparr>)
       [''m01'', ''m02'', ''m03'', ''m04'', ''m05'', ''m06'', ''m07'', ''m08'', ''m09'', ''m10'',
        ''m11'', ''m12'', ''m13'', ''m14'', ''m15'', ''m16'', ''m17'', ''m18'', ''m19'']"
  by (simp add: bob_long_history_def history_of_def)

lemma bob_two_asks:
  "\<exists>s1 s2. Thread_ask_all (Suc 0) pong_env 0 [(''one'', no_options), (''two'', no_options)]
              bob_long_history = Some [(''pong'', s1), (''pong'', s2)]"
proof -
  obtain s1 where 1:
    "Thread_ask (Suc 0) pong_env 0 ''one'' no_options bob_long_history = Some (Inr ''pong'', s1)"
    using pong_Thread_ask by blast
  obtain s2 where 2: "Thread_ask (Suc 0) pong_env 0 ''two'' no_options s1 = Some (Inr ''pong'', s2)"
    using pong_Thread_ask by blast
  show ?thesis using 1 2 by simp
qed

text \<open>
  An instance: the thread of \<^verbatim>\<open>bob\<close> holds 19 entries and is asked twice. The first
  call makes 21 entries and drops \<^verbatim>\<open>m01\<close>; the second makes 22 and drops \<^verbatim>\<open>m02\<close> and
  \<^verbatim>\<open>m03\<close>. The newest entries are kept.
\<close>

theorem history_bound_after_each_ask_witness:
  "\<exists>s1 s2. Thread_ask_all (Suc 0) pong_env 0 [(''one'', no_options), (''two'', no_options)]
              bob_long_history = Some [(''pong'', s1), (''pong'', s2)]
     \<and> history_of s1 0 =
         map (\<lambda>c. \<lparr>role = ''user'', content = c, name = None\<rparr>)
           [''m02'', ''m03'', ''m04'', ''m05'', ''m06'', ''m07'', ''m08'', ''m09'', ''m10'',
            ''m11'', ''m12'', ''m13'', ''m14'', ''m15'', ''m16'', ''m17'', ''m18'', ''m19'']
         @ [\<lparr>role = ''user'', content = ''one'', name = None\<rparr>,
            \<lparr>role = ''assistant'', content = ''pong'', name = None\<rparr>]
     \<and> length (history_of s1 0) = 20
     \<and> history_of s2 0 =
         map (\<lambda>c. \<lparr>role = ''user'', content = c, name = None\<rparr>)
           [''m04'', ''m05'', ''m06'', ''m07'', ''m08'', ''m09'', ''m10'',
            ''m11'', ''m12'', ''m13'', ''m14'', ''m15'', ''m16'', ''m17'', ''m18'', ''m19'']
         @ [\<lparr>role = ''user'', content = ''one'', name = None\<rparr>,
            \<lparr>role = ''assistant'', content = ''pong'', name = None\<rparr>,
            \<lparr>role = ''user'', content = ''two'', name = None\<rparr>,
            \<lparr>role = ''assistant'', content = ''pong'', name = None\<rparr>]
     \<and> length (history_of s2 0) = 20"
proof -
  obtain s1 s2 where a:
    "Thread_ask_all (Suc 0) pong_env 0 [(''one'', no_options), (''two'', no_options)]
       bob_long_history = Some [(''pong'', s1), (''pong'', s2)]"
    using bob_two_asks by blast
  note b = history_bound_after_each_ask [OF a]
  from b have "history_of (snd ([(''pong'', s1), (''pong'', s2)] ! 0)) 0 =
      drop (length (history_of ((bob_long_history # map snd [(''pong'', s1), (''pong'', s2)]) ! 0) 0)
              + 2 - 20)
        (history_of ((bob_long_history # map snd [(''pong'', s1), (''pong'', s2)]) ! 0) 0 @
           [\<lparr>role = ''user'',
             content = fst ([(''one'', no_options), (''two'', no_options)] ! 0), name = None\<rparr>,
            \<lparr>role = ''assistant'', content = fst ([(''pong'', s1), (''pong'', s2)] ! 0),
             name = None\<rparr>])"
    by (elim conjE allE [where x = 0]) simp
  then have h1: "history_of s1 0 =
         map (\<lambda>c. \<lparr>role = ''user'', content = c, name = None\<rparr>)
           [''m02'', ''m03'', ''m04'', ''m05'', ''m06'', ''m07'', ''m08'', ''m09'', ''m10'',
            ''m11'', ''m12'', ''m13'', ''m14'', ''m15'', ''m16'', ''m17'', ''m18'', ''m19'']
         @ [\<lparr>role = ''user'', content = ''one'', name = None\<rparr>,
            \<lparr>role = ''assistant'', content = ''pong'', name = None\<rparr>]"
    by (simp add: bob_history)
  from b have "history_of (snd ([(''pong'', s1), (''pong'', s2)] ! 1)) 0 =
      drop (length (history_of ((bob_long_history # map snd [(''pong'', s1), (''pong'', s2)]) ! 1) 0)
              + 2 - 20)
        (history_of ((bob_long_history # map snd [(''pong'', s1), (''pong'', s2)]) ! 1) 0 @
           [\<lparr>role = ''user'',
             content = fst ([(''one'', no_options), (''two'', no_options)] ! 1), name = None\<rparr>,
            \<lparr>role = ''assistant'', content = fst ([(''pong'', s1), (''pong'', s2)] ! 1),
             name = None\<rparr>])"
    by (elim conjE allE [where x = 1]) simp
  then have h2: "history_of s2 0 =
         map (\<lambda>c. \<lparr>role = ''user'', content = c, name = None\<rparr>)
           [''m04'', ''m05'', ''m06'', ''m07'', ''m08'', ''m09'', ''m10'',
            ''m11'', ''m12'', ''m13'', ''m14'', ''m15'', ''m16'', ''m17'', ''m18'', ''m19'']
         @ [\<lparr>role = ''user'', content = ''one'', name = None\<rparr>,
            \<lparr>role = ''assistant'', content = ''pong'', name = None\<rparr>,
            \<lparr>role = ''user'', content = ''two'', name = None\<rparr>,
            \<lparr>role = ''assistant'', content = ''pong'', name = None\<rparr>]"
    by (simp add: h1)
  have "length (history_of s1 0) = 20" "length (history_of s2 0) = 20"
    by (simp_all add: h1 h2)
  with a h1 h2 show ?thesis by blast
qed

subsection \<open>The command parser\<close>

lemma match_all_order:
  "match_all ''!order item:pizza quantity:2 address:123 Main St'' =
     [''item:pizza quantity'', ''address:123 Main St'']"
  by code_simp

lemma commandMatch_order:
  "commandMatch ''!order item:pizza quantity:2 address:123 Main St'' = Some ''order''"
  by code_simp

lemma assign_item:
  "assign_pair h orderTemplate ''item:pizza quantity'' r = r(''item'' \<mapsto> VStr ''pizza quantity'')"
  by (simp add: assign_pair_def orderTemplate_def convertValueType_def trim_def is_space_char_def)

lemma assign_address:
  "assign_pair h orderTemplate ''address:123 Main St'' r = r(''address'' \<mapsto> VStr ''123 Main St'')"
  by (simp add: assign_pair_def orderTemplate_def convertValueType_def trim_def is_space_char_def)

text \<open>
  Claim C2. On the message of the documentation the parser does not give the record
  the claim states. The value pattern \<^verbatim>\<open>[\w\s]+\<close> is greedy and runs over the next key:
  the first pair matched is \<^verbatim>\<open>item:pizza quantity\<close>, the search goes on at the colon
  after \<^verbatim>\<open>quantity\<close>, and the only other pair is \<^verbatim>\<open>address:123 Main St\<close>. So
  \<^verbatim>\<open>item\<close> is \<^verbatim>\<open>"pizza quantity"\<close>, \<^verbatim>\<open>quantity\<close> is absent, the required-field check
  fails and \<^verbatim>\<open>isValid\<close> is false. This holds for every host and every map of
  registered templates.
\<close>

theorem parse_order_message:
  "parseMessage h ts ''!order item:pizza quantity:2 address:123 Main St'' (ByDef orderTemplate) =
     [''isValid'' \<mapsto> VBool False,
      ''errors'' \<mapsto> VArr [''Required field '' @ [dq] @ ''quantity'' @ [dq] @ '' is missing''],
      ''command'' \<mapsto> VStr ''order'',
      ''item'' \<mapsto> VStr ''pizza quantity'',
      ''address'' \<mapsto> VStr ''123 Main St'']"
  apply (simp add: parseMessage_def match_all_order commandMatch_order assign_item assign_address
           validateParsedMessage_def)
  apply (simp add: orderTemplate_def field_errors_def)
  apply (rule ext)
  apply simp
  done

lemma lower_char_eq:
  assumes "of_char d = (m::nat)" "\<not> (65 \<le> m \<and> m \<le> 90)" "\<not> (192 \<le> m \<and> m \<le> 222)" "32 \<le> m"
  shows "lower_char c = d \<longleftrightarrow>
           (of_char c = m \<or>
            ((of_char c :: nat) + 32 = m \<and>
             ((65 \<le> m - 32 \<and> m - 32 \<le> 90) \<or> (192 \<le> m - 32 \<and> m - 32 \<le> 222 \<and> m - 32 \<noteq> 215))))"
  using assms
  by (auto simp: lower_char_def Let_def char_of_eq_iff take_bit_eq_mod)

lemma lower_char_letter:
  assumes "(of_char l :: nat) = m" "97 \<le> m" "m \<le> 122" "(of_char u :: nat) = m - 32"
  shows "lower_char c = l \<longleftrightarrow> c = l \<or> c = u"
proof -
  have "lower_char c = l \<longleftrightarrow> (of_char c = m \<or> of_char c = m - 32)"
    using assms by (subst lower_char_eq [where m = m]) auto
  also have "\<dots> \<longleftrightarrow> (of_char c = (of_char l :: nat) \<or> of_char c = (of_char u :: nat))"
    using assms by simp
  also have "\<dots> \<longleftrightarrow> c = l \<or> c = u"
    by (simp only: of_char_eq_iff)
  finally show ?thesis .
qed

lemma lower_char_true_letters:
  "lower_char c = CHR ''t'' \<longleftrightarrow> c = CHR ''t'' \<or> c = CHR ''T''"
  "lower_char c = CHR ''r'' \<longleftrightarrow> c = CHR ''r'' \<or> c = CHR ''R''"
  "lower_char c = CHR ''u'' \<longleftrightarrow> c = CHR ''u'' \<or> c = CHR ''U''"
  "lower_char c = CHR ''e'' \<longleftrightarrow> c = CHR ''e'' \<or> c = CHR ''E''"
proof -
  show "lower_char c = CHR ''t'' \<longleftrightarrow> c = CHR ''t'' \<or> c = CHR ''T''"
    by (rule lower_char_letter [where m = 116 and u = "CHR ''T''"]) simp_all
  show "lower_char c = CHR ''r'' \<longleftrightarrow> c = CHR ''r'' \<or> c = CHR ''R''"
    by (rule lower_char_letter [where m = 114 and u = "CHR ''R''"]) simp_all
  show "lower_char c = CHR ''u'' \<longleftrightarrow> c = CHR ''u'' \<or> c = CHR ''U''"
    by (rule lower_char_letter [where m = 117 and u = "CHR ''U''"]) simp_all
  show "lower_char c = CHR ''e'' \<longleftrightarrow> c = CHR ''e'' \<or> c = CHR ''E''"
    by (rule lower_char_letter [where m = 101 and u = "CHR ''E''"]) simp_all
qed

lemma map_eq_four:
  "map f v = [w, x, y, z] \<longleftrightarrow>
     (\<exists>a b c d. v = [a, b, c, d] \<and> f a = w \<and> f b = x \<and> f c = y \<and> f d = z)"
  by (auto simp: map_eq_Cons_conv)

lemma toLowerCase_true:
  "toLowerCase v = ''true'' \<longleftrightarrow>
     (\<exists>a b c d. v = [a, b, c, d] \<and> a \<in> {CHR ''t'', CHR ''T''} \<and> b \<in> {CHR ''r'', CHR ''R''}
        \<and> c \<in> {CHR ''u'', CHR ''U''} \<and> d \<in> {CHR ''e'', CHR ''E''})"
  unfolding toLowerCase_def map_eq_four lower_char_true_letters
  by (simp only: insert_iff empty_iff simp_thms)

text \<open>
  Claim C6, as the code has it. For a field of type \<^verbatim>\<open>boolean\<close> the coercion lowers
  the case of the raw string before it compares: the result is true exactly for the
  strings that spell \<^verbatim>\<open>true\<close> in letters of either case (\<^verbatim>\<open>"TRUE"\<close> and \<^verbatim>\<open>"True"\<close>
  among them) and false for every other string.
\<close>

theorem convert_boolean_ignores_case:
  "convertValueType h v ''boolean'' =
     VBool (\<exists>a b c d. v = [a, b, c, d] \<and> a \<in> {CHR ''t'', CHR ''T''} \<and> b \<in> {CHR ''r'', CHR ''R''}
              \<and> c \<in> {CHR ''u'', CHR ''U''} \<and> d \<in> {CHR ''e'', CHR ''E''})"
  by (simp add: convertValueType_def toLowerCase_true)

lemma convert_TRUE: "convertValueType h ''TRUE'' ''boolean'' = VBool True"
  by (simp add: convertValueType_def toLowerCase_true)

text \<open>
  Claim C6 as stated fails: the coercion is not the comparison with the exact string
  \<^verbatim>\<open>true\<close>, since \<^verbatim>\<open>"TRUE"\<close> is coerced to true.
\<close>

theorem convert_boolean_case_sensitive_counterexample:
  "\<not> (\<forall>(h :: unit host) v. convertValueType h v ''boolean'' = VBool (v = ''true''))"
proof
  assume "\<forall>(h :: unit host) v. convertValueType h v ''boolean'' = VBool (v = ''true'')"
  then have "\<forall>h :: unit host. convertValueType h ''TRUE'' ''boolean'' = VBool (''TRUE'' = ''true'')"
    by blast
  then show False by (simp add: convert_TRUE)
qed

end
